theory Spec2Isabelle
  imports Main
begin

section \<open>JavaScript values and exceptions\<close>

text \<open>
  The two scripts work on values produced by \<open>JSON.parse\<close> and on the results of reading
  properties of such values. A value is \<open>undefined\<close>, \<open>null\<close>, a boolean, a number, a string,
  an array or an object; an object is the list of its own properties, each key once.
  Numbers are the integers (the scripts only test a number for truthiness, compare it
  with \<open>!==\<close> and print it). A string is a list of code units.
\<close>

datatype jsval =
    JUndefined
  | JNull
  | JBool bool
  | JNum int
  | JStr string
  | JArr "jsval list"
  | JObj "(string \<times> jsval) list"

text \<open>A thrown \<open>Error\<close> object: its class and its \<open>message\<close>.\<close>

datatype exn = Error string | TypeError string | SyntaxError string

fun message :: "exn \<Rightarrow> string" where
  "message (Error m) = m"
| "message (TypeError m) = m"
| "message (SyntaxError m) = m"

text \<open>Truthiness, as \<open>!v\<close>, \<open>v && x\<close>, \<open>v || x\<close> and \<open>if (v)\<close> see it.\<close>

fun truthy :: "jsval \<Rightarrow> bool" where
  "truthy JUndefined = False"
| "truthy JNull = False"
| "truthy (JBool b) = b"
| "truthy (JNum n) = (n \<noteq> 0)"
| "truthy (JStr s) = (s \<noteq> [])"
| "truthy (JArr xs) = True"
| "truthy (JObj kvs) = True"

fun nullish :: "jsval \<Rightarrow> bool" where
  "nullish JUndefined = True"
| "nullish JNull = True"
| "nullish v = False"

text \<open>
  Reading a property \<open>v[k]\<close> or \<open>v.k\<close> of a value that is neither \<open>undefined\<close> nor
  \<open>null\<close> (reading one of those raises a TypeError, which every caller below writes out
  before it calls \<open>get\<close>). It is used at the field names of the submission and the
  manifest only, none of which a string, number, boolean or array has, and none of which
  an object inherits.
\<close>

fun get :: "jsval \<Rightarrow> string \<Rightarrow> jsval" where
  "get (JObj kvs) k = (case map_of kvs k of Some v \<Rightarrow> v | None \<Rightarrow> JUndefined)"
| "get v k = JUndefined"

definition cannot_read :: "jsval \<Rightarrow> string \<Rightarrow> exn" where
  "cannot_read v k =
     TypeError (''Cannot read properties of '' @ (if v = JNull then ''null'' else ''undefined'')
                @ '' (reading '' @ [CHR 0x27] @ k @ [CHR 0x27] @ '')'')"

text \<open>\<open>===\<close>: primitives are compared by value, two arrays or objects are never the same
  reference here (each comes from its own \<open>JSON.parse\<close>).\<close>

fun strict_eq :: "jsval \<Rightarrow> jsval \<Rightarrow> bool" where
  "strict_eq JUndefined JUndefined = True"
| "strict_eq JNull JNull = True"
| "strict_eq (JBool a) (JBool b) = (a = b)"
| "strict_eq (JNum a) (JNum b) = (a = b)"
| "strict_eq (JStr a) (JStr b) = (a = b)"
| "strict_eq a b = False"

subsection \<open>Strings\<close>

fun join :: "string \<Rightarrow> string list \<Rightarrow> string" where
  "join sep [] = []"
| "join sep [x] = x"
| "join sep (x # y # ys) = x @ sep @ join sep (y # ys)"

definition digit_char :: "nat \<Rightarrow> char" where
  "digit_char d = ''0123456789'' ! d"

fun show_nat :: "nat \<Rightarrow> string" where
  "show_nat n = (if n < 10 then [digit_char n] else show_nat (n div 10) @ [digit_char (n mod 10)])"

declare show_nat.simps [simp del]

definition show_int :: "int \<Rightarrow> string" where
  "show_int i = (if i < 0 then CHR ''-'' # show_nat (nat (- i)) else show_nat (nat i))"

text \<open>
  \<open>ToString\<close>, as a template literal, \<open>Array.prototype.join\<close> and \<open>RegExp.prototype.test\<close>
  apply it. An array prints its elements separated by commas, \<open>null\<close> and \<open>undefined\<close>
  elements as the empty string. An object prints as \<open>[object Object]\<close>, unless it has an
  own property \<open>toString\<close>: a parsed value is never callable, so the conversion raises.
\<close>

fun to_str :: "jsval \<Rightarrow> exn + string"
  and to_str_elems :: "jsval list \<Rightarrow> exn + string list" where
  "to_str JUndefined = Inr ''undefined''"
| "to_str JNull = Inr ''null''"
| "to_str (JBool b) = Inr (if b then ''true'' else ''false'')"
| "to_str (JNum n) = Inr (show_int n)"
| "to_str (JStr s) = Inr s"
| "to_str (JArr xs) = (case to_str_elems xs of Inl e \<Rightarrow> Inl e | Inr ss \<Rightarrow> Inr (join '','' ss))"
| "to_str (JObj kvs) =
     (if ''toString'' \<in> set (map fst kvs)
      then Inl (TypeError ''Cannot convert object to primitive value'')
      else Inr ''[object Object]'')"
| "to_str_elems [] = Inr []"
| "to_str_elems (x # xs) =
     (case (if nullish x then Inr [] else to_str x) of
        Inl e \<Rightarrow> Inl e
      | Inr s \<Rightarrow> (case to_str_elems xs of Inl e \<Rightarrow> Inl e | Inr ss \<Rightarrow> Inr (s # ss)))"

text \<open>\<open>xs.join(sep)\<close> on an array of values.\<close>

definition join_js :: "string \<Rightarrow> jsval list \<Rightarrow> exn + string" where
  "join_js sep xs = (case to_str_elems xs of Inl e \<Rightarrow> Inl e | Inr ss \<Rightarrow> Inr (join sep ss))"

text \<open>\<open>s.split(c)\<close> for a one-character separator: never empty, \<open>''''.split(c)\<close> is \<open>['''']\<close>.\<close>

fun js_split :: "char \<Rightarrow> string \<Rightarrow> string list" where
  "js_split c [] = [[]]"
| "js_split c (x # xs) =
     (if x = c then [] # js_split c xs
      else (case js_split c xs of p # ps \<Rightarrow> (x # p) # ps | [] \<Rightarrow> [[x]]))"

definition startsWith :: "string \<Rightarrow> string \<Rightarrow> bool" where
  "startsWith s p = (take (length p) s = p)"

definition endsWith :: "string \<Rightarrow> string \<Rightarrow> bool" where
  "endsWith s p = (length p \<le> length s \<and> drop (length s - length p) s = p)"

text \<open>\<open>s.replace(pat, '''')\<close> with a string pattern: the first occurrence is removed.\<close>

fun remove_first :: "string \<Rightarrow> string \<Rightarrow> string" where
  "remove_first pat [] = []"
| "remove_first pat (c # cs) =
     (if startsWith (c # cs) pat then drop (length pat) (c # cs) else c # remove_first pat cs)"

definition path_join :: "string \<Rightarrow> string \<Rightarrow> string" where
  \<comment> \<open>\<open>path.join(dir, file)\<close> for a normalised directory and an entry name of it\<close>
  "path_join dir file = dir @ ''/'' @ file"

definition basename :: "string \<Rightarrow> string" where
  \<comment> \<open>\<open>path.basename(p)\<close>: trailing slashes dropped, then the part after the last slash\<close>
  "basename p =
     rev (takeWhile (\<lambda>c. c \<noteq> CHR ''/'') (dropWhile (\<lambda>c. c = CHR ''/'') (rev p)))"

section \<open>Regular expressions\<close>

text \<open>
  The regular expressions of the scripts use literals, character classes, sequence,
  alternation, the greedy quantifiers \<open>?\<close>, \<open>*\<close>, \<open>+\<close>, the anchors \<open>^\<close> and \<open>$\<close> (no
  \<open>m\<close> flag: start and end of the input only) and the word boundary \<open>\b\<close>.

  A cursor is a position in the input: the character before it, if any, and the rest
  of the input. \<open>ends r cur\<close> is the set of cursors at which a match of \<open>r\<close> that
  starts at \<open>cur\<close> can end. \<open>RegExp.prototype.test\<close> finds out whether a match exists
  from any position; backtracking tries every alternative, so \<open>test\<close> holds exactly if
  some starting cursor has an end.
\<close>

datatype citem = CChar char | CRange char char

fun in_item :: "citem \<Rightarrow> char \<Rightarrow> bool" where
  "in_item (CChar a) c = (c = a)"
| "in_item (CRange a b) c = ((of_char a :: nat) \<le> of_char c \<and> (of_char c :: nat) \<le> of_char b)"

definition in_class :: "citem list \<Rightarrow> char \<Rightarrow> bool" where
  "in_class cs c = list_ex (\<lambda>i. in_item i c) cs"

datatype rx =
    Eps
  | Lit string
  | Cls "citem list"
  | NCls "citem list"
  | Cat rx rx
  | Alt rx rx
  | Opt rx
  | Star rx
  | Plus rx
  | Bol
  | Eol
  | WordB

type_synonym cursor = "char option \<times> string"

definition word_chars :: "citem list" where
  \<comment> \<open>\<open>\w\<close>\<close>
  "word_chars = [CRange CHR ''a'' CHR ''z'', CRange CHR ''A'' CHR ''Z'', CRange CHR ''0'' CHR ''9'',
                 CChar CHR ''_'']"

definition is_word :: "char option \<Rightarrow> bool" where
  "is_word c = (case c of None \<Rightarrow> False | Some x \<Rightarrow> in_class word_chars x)"

fun next_char :: "string \<Rightarrow> char option" where
  "next_char [] = None"
| "next_char (c # cs) = Some c"

text \<open>
  A quantified expression is tried again from wherever one iteration ended; an iteration
  that consumed nothing is dropped, as the language definition has it, so there are at
  most as many iterations as characters left.
\<close>

fun repeat :: "(cursor \<Rightarrow> cursor set) \<Rightarrow> nat \<Rightarrow> cursor \<Rightarrow> cursor set" where
  "repeat f 0 cur = {cur}"
| "repeat f (Suc n) cur =
     insert cur (\<Union>nxt \<in> f cur. if length (snd nxt) < length (snd cur) then repeat f n nxt else {})"

primrec ends :: "rx \<Rightarrow> cursor \<Rightarrow> cursor set" where
  "ends Eps cur = {cur}"
| "ends (Lit w) cur =
     (if w = [] then {cur}
      else if startsWith (snd cur) w then {(Some (last w), drop (length w) (snd cur))} else {})"
| "ends (Cls cs) cur =
     (case snd cur of [] \<Rightarrow> {} | c # t \<Rightarrow> if in_class cs c then {(Some c, t)} else {})"
| "ends (NCls cs) cur =
     (case snd cur of [] \<Rightarrow> {} | c # t \<Rightarrow> if in_class cs c then {} else {(Some c, t)})"
| "ends (Cat r1 r2) cur = (\<Union>mid \<in> ends r1 cur. ends r2 mid)"
| "ends (Alt r1 r2) cur = ends r1 cur \<union> ends r2 cur"
| "ends (Opt r) cur = insert cur (ends r cur)"
| "ends (Star r) cur = repeat (ends r) (length (snd cur)) cur"
| "ends (Plus r) cur = (\<Union>mid \<in> ends r cur. repeat (ends r) (length (snd mid)) mid)"
| "ends Bol cur = (if fst cur = None then {cur} else {})"
| "ends Eol cur = (if snd cur = [] then {cur} else {})"
| "ends WordB cur = (if is_word (fst cur) \<noteq> is_word (next_char (snd cur)) then {cur} else {})"

fun cursors :: "char option \<Rightarrow> string \<Rightarrow> cursor list" where
  "cursors p [] = [(p, [])]"
| "cursors p (c # cs) = (p, c # cs) # cursors (Some c) cs"

definition test :: "rx \<Rightarrow> string \<Rightarrow> bool" where
  "test r s = list_ex (\<lambda>cur. ends r cur \<noteq> {}) (cursors None s)"

fun seq :: "rx list \<Rightarrow> rx" where
  "seq [] = Eps"
| "seq [r] = r"
| "seq (r # rs) = Cat r (seq rs)"

definition lower_digit :: "citem list" where
  \<comment> \<open>\<open>a-z0-9\<close>\<close>
  "lower_digit = [CRange CHR ''a'' CHR ''z'', CRange CHR ''0'' CHR ''9'']"

definition digit :: "citem list" where
  \<comment> \<open>\<open>\d\<close>\<close>
  "digit = [CRange CHR ''0'' CHR ''9'']"

definition space :: "citem list" where
  \<comment> \<open>\<open>\s\<close>, as far as code units below 256 go: tab to carriage return, space, no-break space\<close>
  "space = [CRange (CHR 0x09) (CHR 0x0D), CChar CHR '' '', CChar (CHR 0xA0)]"

definition semver_tail :: "citem list" where
  \<comment> \<open>\<open>a-zA-Z0-9.-\<close>\<close>
  "semver_tail = [CRange CHR ''a'' CHR ''z'', CRange CHR ''A'' CHR ''Z'', CRange CHR ''0'' CHR ''9'',
                  CChar CHR ''.'', CChar CHR ''-'']"

section \<open>The validator (\<open>scripts/validate.js\<close>)\<close>

subsection \<open>Tables\<close>

definition REQUIRED_SUBMISSION_FIELDS :: "string list" where
  "REQUIRED_SUBMISSION_FIELDS = [''id'', ''name'', ''description'', ''author'', ''repo'']"

definition REQUIRED_MANIFEST_FIELDS :: "string list" where
  "REQUIRED_MANIFEST_FIELDS =
     [''id'', ''name'', ''version'', ''minAppVersion'', ''author'', ''description'', ''main'',
      ''permissions'']"

definition VALID_PERMISSIONS :: "string list" where
  "VALID_PERMISSIONS =
     [''read:goals'', ''read:tasks'', ''read:habits'', ''read:odysseys'',
      ''read:appointments'', ''read:reminders'', ''read:categories'', ''read:tags'',
      ''read:timeline'', ''read:settings'', ''read:schedules'',
      ''write:goals'', ''write:tasks'', ''write:habits'', ''write:odysseys'',
      ''write:appointments'', ''write:reminders'', ''write:categories'', ''write:tags'',
      ''write:timeline'', ''write:settings'',
      ''notifications'', ''shortcuts'', ''network'', ''clipboard'', ''filesystem'', ''theme'',
      ''customize:ui'']"

definition DANGEROUS_PERMISSIONS :: "string list" where
  "DANGEROUS_PERMISSIONS =
     [''write:goals'', ''write:tasks'', ''write:habits'', ''write:odysseys'',
      ''write:appointments'', ''write:reminders'', ''write:categories'', ''write:tags'',
      ''write:timeline'', ''write:settings'',
      ''network'', ''filesystem'', ''theme'', ''customize:ui'']"

definition DANGEROUS_PATTERNS :: "(rx \<times> string) list" where
  "DANGEROUS_PATTERNS =
     [(seq [WordB, Lit ''eval'', Star (Cls space), Lit ''(''], ''eval()''),
      (seq [WordB, Lit ''new'', Plus (Cls space), Lit ''Function'', Star (Cls space), Lit ''(''],
       ''new Function()''),
      (Lit ''document.write'', ''document.write''),
      (seq [Lit ''innerHTML'', Star (Cls space), Lit ''=''], ''innerHTML assignment''),
      (seq [WordB, Lit ''fetch'', Star (Cls space), Lit ''('', Star (NCls [CChar CHR '')'']),
            Lit ''${''], ''dynamic fetch URL'')]"

text \<open>\<open>xs.includes(v)\<close> on a table of strings.\<close>

fun js_includes :: "string list \<Rightarrow> jsval \<Rightarrow> bool" where
  "js_includes xs (JStr s) = (s \<in> set xs)"
| "js_includes xs v = False"

subsection \<open>ValidationResult\<close>

record check =
  check_name :: string
  check_passed :: bool
  check_details :: jsval

record ValidationResult =
  pluginId :: jsval
  passed :: bool
  checks :: "check list"
  warnings :: "string list"
  errors :: "string list"
  manifest :: jsval

definition new_ValidationResult :: "jsval \<Rightarrow> ValidationResult" where
  "new_ValidationResult pid =
     \<lparr>pluginId = pid, passed = True, checks = [], warnings = [], errors = [], manifest = JNull\<rparr>"

definition addCheck :: "string \<Rightarrow> bool \<Rightarrow> jsval \<Rightarrow> ValidationResult \<Rightarrow> ValidationResult" where
  "addCheck nm p d r =
     (let r' = r\<lparr>checks := checks r @ [\<lparr>check_name = nm, check_passed = p, check_details = d\<rparr>]\<rparr>
      in if \<not> p then r'\<lparr>passed := False\<rparr> else r')"

definition addWarning :: "string \<Rightarrow> ValidationResult \<Rightarrow> ValidationResult" where
  "addWarning msg r = r\<lparr>warnings := warnings r @ [msg]\<rparr>"

definition addError :: "string \<Rightarrow> ValidationResult \<Rightarrow> ValidationResult" where
  "addError msg r = r\<lparr>errors := errors r @ [msg], passed := False\<rparr>"

text \<open>A call of one of the three methods, and a sequence of calls on one result.\<close>

datatype operation = AddCheck string bool jsval | AddWarning string | AddError string

fun apply_operation :: "ValidationResult \<Rightarrow> operation \<Rightarrow> ValidationResult" where
  "apply_operation r (AddCheck nm p d) = addCheck nm p d r"
| "apply_operation r (AddWarning msg) = addWarning msg r"
| "apply_operation r (AddError msg) = addError msg r"

definition apply_operations :: "ValidationResult \<Rightarrow> operation list \<Rightarrow> ValidationResult" where
  "apply_operations r ops = foldl apply_operation r ops"

fun failing :: "operation \<Rightarrow> bool" where
  "failing (AddCheck nm p d) = (\<not> p)"
| "failing (AddWarning msg) = False"
| "failing (AddError msg) = True"

subsection \<open>The world outside\<close>

text \<open>
  What the scripts read: the listing of a directory, the content of a file (or the error
  \<open>readFileSync\<close> raises), the result of \<open>JSON.parse\<close> on a text (or the SyntaxError
  it raises), the response to a request for a URL (or the error \<open>fetch\<close> rejects with),
  the locale's string comparison, and the clock, by the number of readings made before.
  A response has its HTTP status and its text; \<open>response.ok\<close> says that the status is
  in the range 200 to 299. The listing of the plugins directory is there when a function
  starts, and the document the builder writes is the value it is modelled to return.
\<close>

record response =
  status :: nat
  body :: string

definition ok :: "response \<Rightarrow> bool" where
  "ok r = (200 \<le> status r \<and> status r \<le> 299)"

record env =
  readdirSync :: "string \<Rightarrow> string list"
  readFileSync :: "string \<Rightarrow> exn + string"
  JSON_parse :: "string \<Rightarrow> exn + jsval"
  fetch :: "string \<Rightarrow> exn + response"
  localeCompare :: "string \<Rightarrow> string \<Rightarrow> int"
  clock :: "nat \<Rightarrow> string"

definition read_json :: "env \<Rightarrow> string \<Rightarrow> exn + jsval" where
  \<comment> \<open>\<open>JSON.parse(fs.readFileSync(path, 'utf8'))\<close>\<close>
  "read_json E path = (case readFileSync E path of Inl e \<Rightarrow> Inl e | Inr content \<Rightarrow> JSON_parse E content)"

subsection \<open>parseGitHubUrl and fetchFromGitHub\<close>

text \<open>
  \<open>/github\.com\/([^\/]+)\/([^\/]+)/\<close> at the start of a string: both groups are greedy
  runs of characters other than the slash, so the first is the whole run up to the next
  slash and the second the whole run after it. \<open>String.prototype.match\<close> takes the
  leftmost position where this succeeds.
\<close>

definition not_slash :: "char \<Rightarrow> bool" where
  "not_slash c = (c \<noteq> CHR ''/'')"

definition match_repo :: "string \<Rightarrow> (string \<times> string) option" where
  "match_repo s =
     (if startsWith s ''github.com/'' then
        (let rest = drop (length ''github.com/'') s;
             owner = takeWhile not_slash rest;
             rest' = dropWhile not_slash rest
         in if owner = [] \<or> rest' = [] then None
            else (let repo = takeWhile not_slash (tl rest')
                  in if repo = [] then None else Some (owner, repo)))
      else None)"

fun find_repo :: "string \<Rightarrow> (string \<times> string) option" where
  "find_repo [] = None"
| "find_repo (c # cs) =
     (case match_repo (c # cs) of Some m \<Rightarrow> Some m | None \<Rightarrow> find_repo cs)"

definition strip_git :: "string \<Rightarrow> string" where
  \<comment> \<open>\<open>.replace(/\.git$/, '')\<close>\<close>
  "strip_git r = (if endsWith r ''.git'' then take (length r - 4) r else r)"

fun parseGitHubUrl :: "jsval \<Rightarrow> exn + (string \<times> string) option" where
  "parseGitHubUrl (JStr url) =
     Inr (case find_repo url of None \<Rightarrow> None | Some (owner, repo) \<Rightarrow> Some (owner, strip_git repo))"
| "parseGitHubUrl JUndefined = Inl (cannot_read JUndefined ''match'')"
| "parseGitHubUrl JNull = Inl (cannot_read JNull ''match'')"
| "parseGitHubUrl v = Inl (TypeError ''url.match is not a function'')"

definition raw_url :: "string \<Rightarrow> string \<Rightarrow> string \<Rightarrow> string \<Rightarrow> string" where
  "raw_url owner repo branch filePath =
     ''https://raw.githubusercontent.com/'' @ owner @ ''/'' @ repo @ ''/'' @ branch @ ''/'' @ filePath"

text \<open>
  \<open>fetchFromGitHub\<close> returns the text of the file or raises; next to its outcome the
  model returns the URLs it has requested, in order.
\<close>

function fetchFromGitHub :: "env \<Rightarrow> jsval \<Rightarrow> jsval \<Rightarrow> string \<Rightarrow> (exn + string) \<times> string list" where
  "fetchFromGitHub E repoUrl filePath branch =
     (case parseGitHubUrl repoUrl of
        Inl e \<Rightarrow> (Inl e, [])
      | Inr None \<Rightarrow>
          (case to_str repoUrl of
             Inl e \<Rightarrow> (Inl e, [])
           | Inr u \<Rightarrow> (Inl (Error (''Invalid GitHub URL: '' @ u)), []))
      | Inr (Some (owner, repo)) \<Rightarrow>
          (case to_str filePath of
             Inl e \<Rightarrow> (Inl e, [])
           | Inr fp \<Rightarrow>
               (let rawUrl = raw_url owner repo branch fp in
                case fetch E rawUrl of
                  Inl e \<Rightarrow> (Inl e, [rawUrl])
                | Inr resp \<Rightarrow>
                    if \<not> ok resp then
                      (if branch = ''main'' then
                         (case fetchFromGitHub E repoUrl filePath ''master'' of
                            (r, reqs) \<Rightarrow> (r, rawUrl # reqs))
                       else (Inl (Error (''Failed to fetch '' @ fp @ '': '' @ show_nat (status resp))),
                             [rawUrl]))
                    else (Inr (body resp), [rawUrl]))))"
  by pat_completeness auto
termination
  by (relation "measure (\<lambda>(E, repoUrl, filePath, branch). if branch = ''main'' then 1 else 0)") auto

declare fetchFromGitHub.simps [simp del]

subsection \<open>isValidPluginId, isValidSemver, checkDuplicate\<close>

definition partPattern :: rx where
  \<comment> \<open>\<open>/^[a-z0-9][a-z0-9-]*[a-z0-9]$|^[a-z0-9]$/\<close>\<close>
  "partPattern =
     Alt (seq [Bol, Cls lower_digit, Star (Cls (lower_digit @ [CChar CHR ''-''])), Cls lower_digit, Eol])
         (seq [Bol, Cls lower_digit, Eol])"

fun isValidPluginId :: "jsval \<Rightarrow> exn + bool" where
  "isValidPluginId (JStr i) =
     (let parts = js_split CHR ''.'' i in
      if length parts < 2 then Inr False
      else Inr (list_all (test partPattern) parts))"
| "isValidPluginId JUndefined = Inl (cannot_read JUndefined ''split'')"
| "isValidPluginId JNull = Inl (cannot_read JNull ''split'')"
| "isValidPluginId v = Inl (TypeError ''id.split is not a function'')"

definition semverPattern :: rx where
  \<comment> \<open>\<open>/^\d+\.\d+\.\d+(-[a-zA-Z0-9.-]+)?(\+[a-zA-Z0-9.-]+)?$/\<close>\<close>
  "semverPattern =
     seq [Bol, Plus (Cls digit), Lit ''.'', Plus (Cls digit), Lit ''.'', Plus (Cls digit),
          Opt (Cat (Lit ''-'') (Plus (Cls semver_tail))),
          Opt (Cat (Lit ''+'') (Plus (Cls semver_tail))), Eol]"

definition isValidSemver :: "jsval \<Rightarrow> exn + bool" where
  \<comment> \<open>\<open>test\<close> converts its argument to a string first\<close>
  "isValidSemver version =
     (case to_str version of Inl e \<Rightarrow> Inl e | Inr v \<Rightarrow> Inr (test semverPattern v))"

definition has_id :: "env \<Rightarrow> jsval \<Rightarrow> string \<Rightarrow> bool" where
  \<comment> \<open>the body of the loop of \<open>checkDuplicate\<close>: a file that cannot be read or parsed, or
      whose content has no properties, is skipped\<close>
  "has_id E pid path =
     (case read_json E path of
        Inl e \<Rightarrow> False
      | Inr content \<Rightarrow> \<not> nullish content \<and> strict_eq (get content ''id'') pid)"

definition checkDuplicate :: "env \<Rightarrow> jsval \<Rightarrow> string \<Rightarrow> bool" where
  "checkDuplicate E pid pluginsDir =
     (let existingFiles = filter (\<lambda>f. endsWith f ''.json'') (readdirSync E pluginsDir)
      in list_ex (\<lambda>file. has_id E pid (path_join pluginsDir file)) existingFiles)"

subsection \<open>validatePlugin\<close>

definition and_then :: "exn + 'a \<Rightarrow> ('a \<Rightarrow> exn + 'b) \<Rightarrow> exn + 'b" where
  \<comment> \<open>sequencing of two steps, the first of which may raise\<close>
  "and_then x f = (case x of Inl e \<Rightarrow> Inl e | Inr v \<Rightarrow> f v)"

definition missing_fields :: "string list \<Rightarrow> jsval \<Rightarrow> string list" where
  \<comment> \<open>\<open>FIELDS.filter(f => !v[f])\<close>\<close>
  "missing_fields names v = filter (\<lambda>f. \<not> truthy (get v f)) names"

text \<open>
  The receiver of \<open>manifest.permissions?.filter(...)\<close>: nothing when it is \<open>undefined\<close> or
  \<open>null\<close> (the call is skipped), the elements of an array, and a TypeError otherwise,
  since no other parsed value has a callable \<open>filter\<close>.
\<close>

definition optional_array :: "jsval \<Rightarrow> exn + jsval list option" where
  "optional_array v =
     (if nullish v then Inr None
      else (case v of
              JArr ps \<Rightarrow> Inr (Some ps)
            | _ \<Rightarrow> Inl (TypeError ''manifest.permissions?.filter is not a function'')))"

definition or_empty :: "jsval list option \<Rightarrow> (jsval \<Rightarrow> bool) \<Rightarrow> jsval list" where
  \<comment> \<open>\<open>v?.filter(p) || []\<close>\<close>
  "or_empty ps p = (case ps of None \<Rightarrow> [] | Some xs \<Rightarrow> filter p xs)"

text \<open>Check 8: IDs match.\<close>

definition checkIdsMatch :: "jsval \<Rightarrow> jsval \<Rightarrow> ValidationResult \<Rightarrow> exn + ValidationResult" where
  "checkIdsMatch sub m r =
     (if \<not> strict_eq (get m ''id'') (get sub ''id'') then
        and_then (to_str (get sub ''id'')) (\<lambda>a.
        and_then (to_str (get m ''id'')) (\<lambda>b.
        Inr (addCheck ''IDs match'' False (JStr (''submission: '' @ a @ '', manifest: '' @ b)) r)))
      else Inr (addCheck ''IDs match'' True JNull r))"

text \<open>Check 9: Version format.\<close>

definition checkVersion :: "jsval \<Rightarrow> ValidationResult \<Rightarrow> exn + ValidationResult" where
  "checkVersion m r =
     and_then (isValidSemver (get m ''version'')) (\<lambda>valid.
       if \<not> valid then
         and_then (to_str (get m ''version'')) (\<lambda>v.
         Inr (addCheck ''Version format'' False (JStr (v @ '' is not valid semver'')) r))
       else Inr (addCheck ''Version format'' True (get m ''version'') r))"

text \<open>Check 10: Permissions are valid.\<close>

definition checkPermissions :: "jsval \<Rightarrow> ValidationResult \<Rightarrow> exn + ValidationResult" where
  "checkPermissions m r =
     and_then (optional_array (get m ''permissions'')) (\<lambda>ps.
       let invalidPermissions = or_empty ps (\<lambda>p. \<not> js_includes VALID_PERMISSIONS p) in
       if invalidPermissions \<noteq> [] then
         and_then (join_js '', '' invalidPermissions) (\<lambda>s.
         Inr (addCheck ''Valid permissions'' False (JStr (''invalid: '' @ s)) r))
       else Inr (addCheck ''Valid permissions'' True JNull r))"

text \<open>The warning checks: dangerous permissions, optional fields, permission count.\<close>

definition dangerous_warning :: "string \<Rightarrow> string" where
  "dangerous_warning listed =
     ''Plugin requests dangerous permissions: `'' @ listed @ ''` - please document why these are needed''"

definition dangerousWarning :: "jsval list option \<Rightarrow> ValidationResult \<Rightarrow> exn + ValidationResult" where
  "dangerousWarning ps r =
     (let dangerousUsed = or_empty ps (js_includes DANGEROUS_PERMISSIONS) in
      if dangerousUsed \<noteq> [] then
        and_then (join_js ''`, `'' dangerousUsed) (\<lambda>s. Inr (addWarning (dangerous_warning s) r))
      else Inr r)"

definition optionalFieldWarnings :: "jsval \<Rightarrow> ValidationResult \<Rightarrow> ValidationResult" where
  "optionalFieldWarnings m r =
     (let r1 = (if \<not> truthy (get m ''helpUrl'')
                then addWarning ''Consider adding a `helpUrl` for documentation'' r else r)
      in if \<not> truthy (get m ''category'')
         then addWarning ''Consider adding a `category` for better discoverability'' r1 else r1)"

definition count_warning :: "nat \<Rightarrow> string" where
  "count_warning n =
     ''Plugin requests '' @ show_nat n @ '' permissions - consider if all are necessary''"

definition permissionCountWarning :: "jsval list option \<Rightarrow> ValidationResult \<Rightarrow> ValidationResult" where
  \<comment> \<open>\<open>manifest.permissions?.length > 5\<close>\<close>
  "permissionCountWarning ps r =
     (case ps of
        None \<Rightarrow> r
      | Some xs \<Rightarrow> if length xs > 5 then addWarning (count_warning (length xs)) r else r)"

definition warningChecks :: "jsval \<Rightarrow> ValidationResult \<Rightarrow> exn + ValidationResult" where
  "warningChecks m r =
     and_then (optional_array (get m ''permissions'')) (\<lambda>ps.
     and_then (dangerousWarning ps r) (\<lambda>r1.
     Inr (permissionCountWarning ps (optionalFieldWarnings m r1))))"

text \<open>Checks 8 to 10 and the warning checks, in order; the first to raise ends them.\<close>

definition manifestChecks :: "jsval \<Rightarrow> jsval \<Rightarrow> ValidationResult \<Rightarrow> exn + ValidationResult" where
  "manifestChecks sub m r =
     and_then (checkIdsMatch sub m r) (\<lambda>r8.
     and_then (checkVersion m r8) (\<lambda>r9.
     and_then (checkPermissions m r9) (\<lambda>r10.
     warningChecks m r10)))"

text \<open>The security checks: fetch the main script and scan it; a failed fetch is a failed
  check, nothing in this part raises.\<close>

definition pattern_warning :: "string \<Rightarrow> string" where
  "pattern_warning nm =
     ''Found potentially dangerous pattern: `'' @ nm @ ''` - please document its use''"

definition size_warning :: "nat \<Rightarrow> string" where
  \<comment> \<open>\<open>(n / 1024).toFixed(0)\<close> rounds to the nearest integer, a half upwards\<close>
  "size_warning n =
     ''Main script is large ('' @ show_nat ((n + 512) div 1024) @ ''KB) - consider code splitting''"

definition scan_pattern :: "string \<Rightarrow> ValidationResult \<Rightarrow> rx \<times> string \<Rightarrow> ValidationResult" where
  "scan_pattern mainJs r p =
     (case p of (pattern, nm) \<Rightarrow>
        if test pattern mainJs then addWarning (pattern_warning nm) r else r)"

definition scan :: "string \<Rightarrow> ValidationResult \<Rightarrow> ValidationResult" where
  \<comment> \<open>the loop over \<open>DANGEROUS_PATTERNS\<close>\<close>
  "scan mainJs r = foldl (scan_pattern mainJs) r DANGEROUS_PATTERNS"

definition securityChecks :: "env \<Rightarrow> jsval \<Rightarrow> jsval \<Rightarrow> ValidationResult \<Rightarrow> ValidationResult \<times> string list" where
  "securityChecks E sub m r =
     (case fetchFromGitHub E (get sub ''repo'') (get m ''main'') ''main'' of
        (Inl e, reqs) \<Rightarrow> (addCheck ''Main script accessible'' False (JStr (message e)) r, reqs)
      | (Inr mainJs, reqs) \<Rightarrow>
          (scan mainJs (if length mainJs > 1024 * 1024
                        then addWarning (size_warning (length mainJs)) r else r),
           reqs))"

text \<open>Checks 6 and 7, and what follows them.\<close>

definition fetchManifestJson :: "env \<Rightarrow> jsval \<Rightarrow> (exn + jsval) \<times> string list" where
  \<comment> \<open>the \<open>try\<close> block of check 6: fetch \<open>manifest.json\<close> and parse it\<close>
  "fetchManifestJson E sub =
     (case fetchFromGitHub E (get sub ''repo'') (JStr ''manifest.json'') ''main'' of
        (Inl e, reqs) \<Rightarrow> (Inl e, reqs)
      | (Inr manifestContent, reqs) \<Rightarrow> (JSON_parse E manifestContent, reqs))"

definition checkManifest :: "env \<Rightarrow> jsval \<Rightarrow> ValidationResult \<Rightarrow> (exn + ValidationResult) \<times> string list" where
  "checkManifest E sub r =
     (case fetchManifestJson E sub of
        (Inl e, reqs) \<Rightarrow> (Inr (addCheck ''Repo accessible'' False (JStr (message e)) r), reqs)
      | (Inr m, reqs) \<Rightarrow>
          (let r6 = (addCheck ''Manifest found'' True JNull
                      (addCheck ''Repo accessible'' True JNull r))\<lparr>manifest := m\<rparr>
           in if nullish m then (Inl (cannot_read m ''id''), reqs)
              else if missing_fields REQUIRED_MANIFEST_FIELDS m \<noteq> [] then
                (Inr (addCheck ''Manifest valid'' False
                       (JStr (''missing: '' @ join '', '' (missing_fields REQUIRED_MANIFEST_FIELDS m))) r6),
                 reqs)
              else (case manifestChecks sub m (addCheck ''Manifest valid'' True JNull r6) of
                      Inl e \<Rightarrow> (Inl e, reqs)
                    | Inr r' \<Rightarrow>
                        (case securityChecks E sub m r' of
                           (r'', reqs') \<Rightarrow> (Inr r'', reqs @ reqs')))))"

text \<open>Checks 4 and 5, which never end the validation.\<close>

definition checkFilename :: "string \<Rightarrow> string \<Rightarrow> ValidationResult \<Rightarrow> ValidationResult" where
  "checkFilename filename sid r =
     (let expectedFilename = sid @ ''.json'' in
      if filename \<noteq> expectedFilename
      then addCheck ''Filename matches ID'' False (JStr (''expected '' @ expectedFilename)) r
      else addCheck ''Filename matches ID'' True JNull r)"

definition duplicateWarning :: "env \<Rightarrow> jsval \<Rightarrow> string \<Rightarrow> ValidationResult \<Rightarrow> ValidationResult" where
  "duplicateWarning E pid pluginsDir r =
     (if checkDuplicate E pid pluginsDir
      then addWarning ''Plugin ID already exists - this will update the existing entry'' r
      else r)"

text \<open>Checks 2 and 3, and what follows them.\<close>

definition checkSubmission ::
  "env \<Rightarrow> string \<Rightarrow> string \<Rightarrow> jsval \<Rightarrow> ValidationResult \<Rightarrow> (exn + ValidationResult) \<times> string list" where
  "checkSubmission E filename pluginsDir sub r =
     (if nullish sub then (Inl (cannot_read sub ''id''), [])
      else if missing_fields REQUIRED_SUBMISSION_FIELDS sub \<noteq> [] then
        (Inr (addCheck ''Required fields'' False
               (JStr (''missing: '' @ join '', '' (missing_fields REQUIRED_SUBMISSION_FIELDS sub))) r), [])
      else
        (let r2 = (addCheck ''Required fields'' True JNull r)\<lparr>pluginId := get sub ''id''\<rparr> in
         case isValidPluginId (get sub ''id'') of
           Inl e \<Rightarrow> (Inl e, [])
         | Inr False \<Rightarrow>
             (Inr (addCheck ''Plugin ID format'' False
                    (JStr ''must be reverse domain notation (e.g., com.author.name)'') r2), [])
         | Inr True \<Rightarrow>
             (case to_str (get sub ''id'') of
                Inl e \<Rightarrow> (Inl e, [])
              | Inr sid \<Rightarrow>
                  checkManifest E sub
                    (duplicateWarning E (get sub ''id'') pluginsDir
                      (checkFilename filename sid (addCheck ''Plugin ID format'' True JNull r2))))))"

text \<open>
  \<open>validatePlugin\<close>: the result it returns or the exception that leaves it, and the URLs
  it has requested.
\<close>

definition validatePlugin :: "env \<Rightarrow> string \<Rightarrow> string \<Rightarrow> (exn + ValidationResult) \<times> string list" where
  "validatePlugin E submissionPath pluginsDir =
     (let filename = basename submissionPath;
          r = new_ValidationResult (JStr (remove_first ''.json'' filename))
      in case read_json E submissionPath of
           Inl e \<Rightarrow> (Inr (addCheck ''Valid JSON'' False (JStr (message e)) r), [])
         | Inr sub \<Rightarrow> checkSubmission E filename pluginsDir sub (addCheck ''Valid JSON'' True JNull r))"

section \<open>The directory builder\<close>

text \<open>
  \<open>fetchManifest\<close> is \<open>fetchFromGitHub\<close> for \<open>manifest.json\<close>, with the parsing of the
  text inside it.
\<close>

function fetchManifest :: "env \<Rightarrow> jsval \<Rightarrow> string \<Rightarrow> (exn + jsval) \<times> string list" where
  "fetchManifest E repoUrl branch =
     (case parseGitHubUrl repoUrl of
        Inl e \<Rightarrow> (Inl e, [])
      | Inr None \<Rightarrow>
          (case to_str repoUrl of
             Inl e \<Rightarrow> (Inl e, [])
           | Inr u \<Rightarrow> (Inl (Error (''Invalid GitHub URL: '' @ u)), []))
      | Inr (Some (owner, repo)) \<Rightarrow>
          (let rawUrl = raw_url owner repo branch ''manifest.json'' in
           case fetch E rawUrl of
             Inl e \<Rightarrow> (Inl e, [rawUrl])
           | Inr resp \<Rightarrow>
               if \<not> ok resp then
                 (if branch = ''main'' then
                    (case fetchManifest E repoUrl ''master'' of
                       (r, reqs) \<Rightarrow> (r, rawUrl # reqs))
                  else (Inl (Error (''Failed to fetch manifest: '' @ show_nat (status resp))),
                        [rawUrl]))
               else (JSON_parse E (body resp), [rawUrl])))"
  by pat_completeness auto
termination
  by (relation "measure (\<lambda>(E, repoUrl, branch). if branch = ''main'' then 1 else 0)") auto

declare fetchManifest.simps [simp del]

text \<open>
  The entry of a plugin in the directory: an object literal whose optional keys are
  spread in only when the manifest's value is truthy.
\<close>

definition optional_field :: "jsval \<Rightarrow> string \<Rightarrow> (string \<times> jsval) list" where
  \<comment> \<open>\<open>...(manifest.k && { k: manifest.k })\<close>\<close>
  "optional_field m k = (if truthy (get m k) then [(k, get m k)] else [])"

definition directoryEntry :: "jsval \<Rightarrow> jsval \<Rightarrow> string \<Rightarrow> jsval" where
  "directoryEntry sub m now =
     JObj ([(''id'', get m ''id''),
            (''name'', get m ''name''),
            (''description'', get m ''description''),
            (''author'', get m ''author''),
            (''version'', get m ''version''),
            (''minAppVersion'', get m ''minAppVersion''),
            (''repo'', get sub ''repo''),
            (''permissions'', if truthy (get m ''permissions'') then get m ''permissions'' else JArr [])]
           @ optional_field m ''authorUrl''
           @ optional_field m ''helpUrl''
           @ optional_field m ''fundingUrl''
           @ optional_field m ''supportLinks''
           @ optional_field m ''tags''
           @ optional_field m ''category''
           @ [(''updatedAt'', JStr now)])"

text \<open>
  The state of the loop over the submission files: the entries and the errors collected
  so far, the URLs requested and the number of readings of the clock.
\<close>

record build =
  plugins :: "jsval list"
  build_errors :: "(string \<times> string) list"
  requested :: "string list"
  clock_reads :: nat

definition record_error :: "string \<Rightarrow> exn \<Rightarrow> build \<Rightarrow> build" where
  \<comment> \<open>the \<open>catch\<close> block: \<open>errors.push({ file, error: e.message })\<close>\<close>
  "record_error file e st = st\<lparr>build_errors := build_errors st @ [(file, message e)]\<rparr>"

definition processFile :: "env \<Rightarrow> string \<Rightarrow> build \<Rightarrow> string \<Rightarrow> build" where
  "processFile E dir st file =
     (case read_json E (path_join dir file) of
        Inl e \<Rightarrow> record_error file e st
      | Inr sub \<Rightarrow>
          if nullish sub then record_error file (cannot_read sub ''repo'') st
          else (case fetchManifest E (get sub ''repo'') ''main'' of
                  (Inl e, reqs) \<Rightarrow> record_error file e (st\<lparr>requested := requested st @ reqs\<rparr>)
                | (Inr m, reqs) \<Rightarrow>
                    if nullish m
                    then record_error file (cannot_read m ''id'') (st\<lparr>requested := requested st @ reqs\<rparr>)
                    else st\<lparr>plugins := plugins st @ [directoryEntry sub m (clock E (clock_reads st))],
                            requested := requested st @ reqs,
                            clock_reads := Suc (clock_reads st)\<rparr>))"

definition processFiles :: "env \<Rightarrow> string \<Rightarrow> string list \<Rightarrow> build" where
  "processFiles E dir files =
     foldl (processFile E dir)
       \<lparr>plugins = [], build_errors = [], requested = [], clock_reads = 0\<rparr> files"

text \<open>
  The comparator \<open>(a, b) => a.name.localeCompare(b.name)\<close> on two entries: \<open>a.name\<close> has
  the method only when it is a string; \<open>b.name\<close> is converted to a string.
\<close>

definition compareByName :: "env \<Rightarrow> jsval \<Rightarrow> jsval \<Rightarrow> exn + int" where
  "compareByName E a b =
     (case get a ''name'' of
        JStr s \<Rightarrow> and_then (to_str (get b ''name'')) (\<lambda>t. Inr (localeCompare E s t))
      | JUndefined \<Rightarrow> Inl (cannot_read JUndefined ''localeCompare'')
      | JNull \<Rightarrow> Inl (cannot_read JNull ''localeCompare'')
      | _ \<Rightarrow> Inl (TypeError ''a.name.localeCompare is not a function''))"

text \<open>
  \<open>Array.prototype.sort\<close> with a comparator, as Node.js runs it on a short array: a stable
  insertion sort that calls the comparator with the element being inserted first and an
  element of the sorted part second; an exception of the comparator ends the sort. The
  sorted part is kept last element first.
\<close>

fun insert_sorted :: "(jsval \<Rightarrow> jsval \<Rightarrow> exn + int) \<Rightarrow> jsval \<Rightarrow> jsval list \<Rightarrow> exn + jsval list" where
  "insert_sorted cmp x [] = Inr [x]"
| "insert_sorted cmp x (y # ys) =
     and_then (cmp x y) (\<lambda>c.
       if c < 0 then and_then (insert_sorted cmp x ys) (\<lambda>zs. Inr (y # zs))
       else Inr (x # y # ys))"

fun sort_from :: "(jsval \<Rightarrow> jsval \<Rightarrow> exn + int) \<Rightarrow> jsval list \<Rightarrow> jsval list \<Rightarrow> exn + jsval list" where
  "sort_from cmp placed [] = Inr (rev placed)"
| "sort_from cmp placed (x # xs) =
     and_then (insert_sorted cmp x placed) (\<lambda>placed'. sort_from cmp placed' xs)"

definition js_sort :: "(jsval \<Rightarrow> jsval \<Rightarrow> exn + int) \<Rightarrow> jsval list \<Rightarrow> exn + jsval list" where
  "js_sort cmp xs = sort_from cmp [] xs"

text \<open>
  \<open>buildDirectory\<close>: the exception that leaves it, or the document it writes to
  \<open>plugins.json\<close> together with the entries and the errors it returns.
\<close>

definition buildDirectory :: "env \<Rightarrow> string \<Rightarrow> exn + jsval \<times> build" where
  "buildDirectory E PLUGINS_DIR =
     (let files = filter (\<lambda>f. endsWith f ''.json'') (readdirSync E PLUGINS_DIR);
          st = processFiles E PLUGINS_DIR files
      in case js_sort (compareByName E) (plugins st) of
           Inl e \<Rightarrow> Inl e
         | Inr ordered \<Rightarrow>
             Inr (JObj [(''version'', JNum 1),
                        (''generatedAt'', JStr (clock E (clock_reads st))),
                        (''plugins'', JArr ordered)],
                  st\<lparr>plugins := ordered, clock_reads := Suc (clock_reads st)\<rparr>))"

section \<open>Predicates for stating the properties\<close>

text \<open>The characters the identifier and version formats are made of, written out.\<close>

definition ascii_lower :: string where
  "ascii_lower = ''abcdefghijklmnopqrstuvwxyz''"

definition ascii_upper :: string where
  "ascii_upper = ''ABCDEFGHIJKLMNOPQRSTUVWXYZ''"

definition ascii_digits :: string where
  "ascii_digits = ''0123456789''"

definition lower_or_digit :: "char \<Rightarrow> bool" where
  "lower_or_digit c = (c \<in> set ascii_lower \<or> c \<in> set ascii_digits)"

text \<open>
  A part of an identifier as the specification words it: one lower-case letter or digit,
  or a lower-case letter or digit, then any number of lower-case letters, digits and
  hyphens, then a lower-case letter or digit.
\<close>

fun id_part :: "string \<Rightarrow> bool" where
  "id_part [] = False"
| "id_part [c] = lower_or_digit c"
| "id_part (c # m) =
     (lower_or_digit c \<and> list_all (\<lambda>x. lower_or_digit x \<or> x = CHR ''-'') (butlast m) \<and>
      lower_or_digit (last m))"

text \<open>
  The pieces of a version as the specification words it: three non-empty runs of digits,
  and a suffix that is absent or is its mark followed by at least one letter, digit, dot
  or hyphen.
\<close>

definition is_digit :: "char \<Rightarrow> bool" where
  "is_digit c = (c \<in> set ascii_digits)"

definition is_tail_char :: "char \<Rightarrow> bool" where
  "is_tail_char c =
     (c \<in> set ascii_lower \<or> c \<in> set ascii_upper \<or> c \<in> set ascii_digits \<or>
      c = CHR ''.'' \<or> c = CHR ''-'')"

definition numeric :: "string \<Rightarrow> bool" where
  "numeric a = (a \<noteq> [] \<and> list_all is_digit a)"

definition opt_suffix :: "char \<Rightarrow> string \<Rightarrow> bool" where
  "opt_suffix mark x = (x = [] \<or> (hd x = mark \<and> tl x \<noteq> [] \<and> list_all is_tail_char (tl x)))"

text \<open>Whether an expression has a match that starts at a cursor.\<close>

definition acc :: "rx \<Rightarrow> char option \<Rightarrow> string \<Rightarrow> bool" where
  "acc r p s = (ends r (p, s) \<noteq> {})"

text \<open>The names of the checks of a result, in order.\<close>

definition check_names :: "ValidationResult \<Rightarrow> string list" where
  "check_names r = map check_name (checks r)"





text \<open>The warnings of a result that are about dangerous permissions.\<close>

definition is_dangerous_warning :: "string \<Rightarrow> bool" where
  "is_dangerous_warning w = startsWith w ''Plugin requests dangerous permissions: ''"

definition dangerous_warnings :: "ValidationResult \<Rightarrow> string list" where
  "dangerous_warnings r = filter is_dangerous_warning (warnings r)"

section \<open>Example submissions, manifests and worlds\<close>

text \<open>
  The submission and the manifest of the specification's first example, completed with
  the required fields the example leaves out.
\<close>

definition sub_ab :: jsval where
  "sub_ab = JObj [(''id'', JStr ''com.a.b''), (''name'', JStr ''B''), (''description'', JStr ''d''),
                  (''author'', JStr ''A''), (''repo'', JStr ''https://github.com/a/b'')]"

definition man_ab :: jsval where
  "man_ab = JObj [(''id'', JStr ''com.a.b''), (''name'', JStr ''B''), (''version'', JStr ''1.0.0''),
                  (''minAppVersion'', JStr ''1.0.0''), (''author'', JStr ''A''),
                  (''description'', JStr ''d''), (''main'', JStr ''main.js''),
                  (''permissions'', JArr [JStr ''read:goals'', JStr ''network''])]"

text \<open>A second submission, whose manifest has an identifier of its own and no name.\<close>

definition sub_cd :: jsval where
  "sub_cd = JObj [(''id'', JStr ''com.c.d''), (''name'', JStr ''D''), (''description'', JStr ''d''),
                  (''author'', JStr ''C''), (''repo'', JStr ''https://github.com/c/d'')]"

definition man_cd :: jsval where
  "man_cd = JObj [(''id'', JStr ''org.other.plugin''), (''version'', JStr ''0.1.0'')]"

definition not_found :: response where
  "not_found = \<lparr>status = 404, body = ''404: Not Found''\<rparr>"

definition parse_example :: "string \<Rightarrow> exn + jsval" where
  "parse_example t =
     (if t = ''submission of a/b'' then Inr sub_ab
      else if t = ''manifest of a/b'' then Inr man_ab
      else if t = ''submission of c/d'' then Inr sub_cd
      else if t = ''manifest of c/d'' then Inr man_cd
      else Inl (SyntaxError ''Unexpected token in JSON at position 0''))"

definition read_example :: "string \<Rightarrow> exn + string" where
  "read_example p =
     (if p = ''plugins/com.a.b.json'' then Inr ''submission of a/b''
      else if p = ''incoming/foo.json'' then Inr ''submission of a/b''
      else if p = ''plugins/com.c.d.json'' then Inr ''submission of c/d''
      else Inl (Error ''ENOENT: no such file or directory''))"

definition fetch_example :: "string \<Rightarrow> exn + response" where
  "fetch_example u =
     (if u = ''https://raw.githubusercontent.com/a/b/main/manifest.json''
        then Inr \<lparr>status = 200, body = ''manifest of a/b''\<rparr>
      else if u = ''https://raw.githubusercontent.com/a/b/main/main.js''
        then Inr \<lparr>status = 200, body = ''run()''\<rparr>
      else if u = ''https://raw.githubusercontent.com/c/d/master/manifest.json''
        then Inr \<lparr>status = 200, body = ''manifest of c/d''\<rparr>
      else Inr not_found)"

definition compare_example :: "string \<Rightarrow> string \<Rightarrow> int" where
  "compare_example s t = (if s = t then 0 else if length s < length t then - 1 else 1)"

definition clock_example :: "nat \<Rightarrow> string" where
  "clock_example n = ''2024-01-01T00:00:0'' @ show_nat n @ ''.000Z''"

text \<open>A world in which the directory holds the first submission only.\<close>

definition world_one :: env where
  "world_one = \<lparr>readdirSync = (\<lambda>d. if d = ''plugins'' then [''com.a.b.json''] else []),
                 readFileSync = read_example, JSON_parse = parse_example, fetch = fetch_example,
                 localeCompare = compare_example, clock = clock_example\<rparr>"

text \<open>The same world with both submissions in the directory.\<close>

definition world_two :: env where
  "world_two = \<lparr>readdirSync = (\<lambda>d. if d = ''plugins'' then [''com.a.b.json'', ''com.c.d.json''] else []),
                 readFileSync = read_example, JSON_parse = parse_example, fetch = fetch_example,
                 localeCompare = compare_example, clock = clock_example\<rparr>"

text \<open>A world in which every request is answered with status 404.\<close>

definition world_down :: env where
  "world_down = \<lparr>readdirSync = (\<lambda>d. if d = ''plugins'' then [''com.a.b.json''] else []),
                  readFileSync = read_example, JSON_parse = parse_example,
                  fetch = (\<lambda>u. Inr not_found),
                  localeCompare = compare_example, clock = clock_example\<rparr>"

text \<open>What checks 6 to 10, the warning checks and the scan add to a result in the first
  example.\<close>

definition after_manifest_ab :: "ValidationResult \<Rightarrow> ValidationResult" where
  "after_manifest_ab r =
     addWarning ''Consider adding a `category` for better discoverability''
       (addWarning ''Consider adding a `helpUrl` for documentation''
         (addWarning (dangerous_warning ''network'')
           (addCheck ''Valid permissions'' True JNull
             (addCheck ''Version format'' True (JStr ''1.0.0'')
               (addCheck ''IDs match'' True JNull
                 (addCheck ''Manifest valid'' True JNull
                   ((addCheck ''Manifest found'' True JNull
                      (addCheck ''Repo accessible'' True JNull r))\<lparr>manifest := man_ab\<rparr>)))))))"

section \<open>Properties of the regular expressions\<close>

lemma of_char_mem:
  assumes "(of_char c :: nat) \<in> of_char ` S"
  shows "c \<in> S"
proof -
  from assms obtain d where "d \<in> S" "(of_char c :: nat) = of_char d" by blast
  then show ?thesis by simp
qed

lemma lower_range: "c \<in> set ascii_lower \<longleftrightarrow> 97 \<le> (of_char c :: nat) \<and> (of_char c :: nat) \<le> 122"
proof
  assume "97 \<le> (of_char c :: nat) \<and> (of_char c :: nat) \<le> 122"
  then have "(of_char c :: nat) \<in> of_char ` set ascii_lower"
    unfolding ascii_lower_def by simp arith
  then show "c \<in> set ascii_lower" by (rule of_char_mem)
next
  assume "c \<in> set ascii_lower"
  then show "97 \<le> (of_char c :: nat) \<and> (of_char c :: nat) \<le> 122"
    unfolding ascii_lower_def by auto
qed

lemma upper_range: "c \<in> set ascii_upper \<longleftrightarrow> 65 \<le> (of_char c :: nat) \<and> (of_char c :: nat) \<le> 90"
proof
  assume "65 \<le> (of_char c :: nat) \<and> (of_char c :: nat) \<le> 90"
  then have "(of_char c :: nat) \<in> of_char ` set ascii_upper"
    unfolding ascii_upper_def by simp arith
  then show "c \<in> set ascii_upper" by (rule of_char_mem)
next
  assume "c \<in> set ascii_upper"
  then show "65 \<le> (of_char c :: nat) \<and> (of_char c :: nat) \<le> 90"
    unfolding ascii_upper_def by auto
qed

lemma digit_range: "c \<in> set ascii_digits \<longleftrightarrow> 48 \<le> (of_char c :: nat) \<and> (of_char c :: nat) \<le> 57"
proof
  assume "48 \<le> (of_char c :: nat) \<and> (of_char c :: nat) \<le> 57"
  then have "(of_char c :: nat) \<in> of_char ` set ascii_digits"
    unfolding ascii_digits_def by simp arith
  then show "c \<in> set ascii_digits" by (rule of_char_mem)
next
  assume "c \<in> set ascii_digits"
  then show "48 \<le> (of_char c :: nat) \<and> (of_char c :: nat) \<le> 57"
    unfolding ascii_digits_def by auto
qed

lemma lower_digit_iff: "in_class lower_digit c = lower_or_digit c"
  unfolding lower_or_digit_def lower_range digit_range
  by (simp add: in_class_def lower_digit_def)

lemma repeat_class:
  assumes f: "\<And>p s. f (p, s) = (case s of [] \<Rightarrow> {} | c # t \<Rightarrow> if P c then {(Some c, t)} else {})"
  shows "(q, t) \<in> repeat f n (p, s) \<longleftrightarrow>
     (\<exists>a. s = a @ t \<and> length a \<le> n \<and> list_all P a \<and>
          q = (if a = [] then p else Some (last a)))"
proof (induction n arbitrary: p s)
  case 0
  show ?case by auto
next
  case (Suc n)
  let ?R = "\<exists>a. s = a @ t \<and> length a \<le> Suc n \<and> list_all P a \<and>
          q = (if a = [] then p else Some (last a))"
  have stop: "?R \<longleftrightarrow> q = p \<and> t = s" if "\<And>c s'. s = c # s' \<Longrightarrow> \<not> P c"
  proof
    assume ?R
    then obtain a where a: "s = a @ t" "list_all P a" "q = (if a = [] then p else Some (last a))"
      by blast
    have "a = []"
    proof (cases a)
      case Nil then show ?thesis .
    next
      case (Cons x xs)
      with a that[of x "xs @ t"] show ?thesis by simp
    qed
    with a show "q = p \<and> t = s" by simp
  next
    assume "q = p \<and> t = s"
    then show ?R by (intro exI[of _ "[]"]) simp
  qed
  show ?case
  proof (cases s)
    case Nil
    then have "(q, t) \<in> repeat f (Suc n) (p, s) \<longleftrightarrow> q = p \<and> t = s" by (simp add: f)
    moreover have "?R \<longleftrightarrow> q = p \<and> t = s" using Nil by (intro stop) simp
    ultimately show ?thesis by blast
  next
    case (Cons c s')
    show ?thesis
    proof (cases "P c")
      case False
      have "(q, t) \<in> repeat f (Suc n) (p, s) \<longleftrightarrow> q = p \<and> t = s" using False Cons by (simp add: f)
      moreover have "?R \<longleftrightarrow> q = p \<and> t = s" using False Cons by (intro stop) simp
      ultimately show ?thesis by blast
    next
      case True
      have step: "(q, t) \<in> repeat f (Suc n) (p, s) \<longleftrightarrow>
                  (q = p \<and> t = s) \<or> (q, t) \<in> repeat f n (Some c, s')"
        using True Cons by (simp add: f)
      show ?thesis
      proof
        assume "(q, t) \<in> repeat f (Suc n) (p, s)"
        with step consider "q = p \<and> t = s" | "(q, t) \<in> repeat f n (Some c, s')" by blast
        then show ?R
        proof cases
          case 1
          then show ?thesis by (intro exI[of _ "[]"]) simp
        next
          case 2
          then obtain a where a: "s' = a @ t" "length a \<le> n" "list_all P a"
             "q = (if a = [] then Some c else Some (last a))"
            unfolding Suc.IH by blast
          then show ?thesis using True Cons
            by (intro exI[of _ "c # a"]) simp
        qed
      next
        assume ?R
        then obtain a where a: "s = a @ t" "length a \<le> Suc n" "list_all P a"
             "q = (if a = [] then p else Some (last a))" by blast
        show "(q, t) \<in> repeat f (Suc n) (p, s)"
        proof (cases a)
          case Nil
          with a step show ?thesis by simp
        next
          case (Cons x xs)
          with a \<open>s = c # s'\<close> have "s' = xs @ t" "length xs \<le> n" "list_all P xs"
             "q = (if xs = [] then Some c else Some (last xs))" by simp_all
          then have "(q, t) \<in> repeat f n (Some c, s')"
            unfolding Suc.IH by blast
          with step show ?thesis by simp
        qed
      qed
    qed
  qed
qed

lemma ends_Cls_step:
  "ends (Cls cs) (p, s) = (case s of [] \<Rightarrow> {} | c # t \<Rightarrow> if in_class cs c then {(Some c, t)} else {})"
  by simp

lemmas repeat_Cls = repeat_class [of "ends (Cls cs)" "in_class cs" for cs, OF ends_Cls_step]

lemma in_ends_Star_Cls:
  "(q, t) \<in> ends (Star (Cls cs)) (p, s) \<longleftrightarrow>
     (\<exists>a. s = a @ t \<and> list_all (in_class cs) a \<and> q = (if a = [] then p else Some (last a)))"
proof -
  have "(q, t) \<in> ends (Star (Cls cs)) (p, s) \<longleftrightarrow> (q, t) \<in> repeat (ends (Cls cs)) (length s) (p, s)"
    by (simp del: ends.simps(3) add: ends.simps(8))
  also have "\<dots> \<longleftrightarrow> (\<exists>a. s = a @ t \<and> length a \<le> length s \<and> list_all (in_class cs) a \<and>
          q = (if a = [] then p else Some (last a)))"
    by (rule repeat_Cls)
  also have "\<dots> \<longleftrightarrow> (\<exists>a. s = a @ t \<and> list_all (in_class cs) a \<and> q = (if a = [] then p else Some (last a)))"
  proof -
    have "length a \<le> length s" if "s = a @ t" for a using that by simp
    then show ?thesis by blast
  qed
  finally show ?thesis .
qed

lemma in_ends_Plus_Cls:
  "(q, t) \<in> ends (Plus (Cls cs)) (p, s) \<longleftrightarrow>
     (\<exists>a. a \<noteq> [] \<and> s = a @ t \<and> list_all (in_class cs) a \<and> q = Some (last a))"
proof -
  have unf: "ends (Plus (Cls cs)) (p, s) =
     (case s of [] \<Rightarrow> {} | c # s' \<Rightarrow> if in_class cs c then repeat (ends (Cls cs)) (length s') (Some c, s') else {})"
    by (cases s) (simp_all del: ends.simps(3) add: ends_Cls_step)
  show ?thesis
  proof
    assume "(q, t) \<in> ends (Plus (Cls cs)) (p, s)"
    then obtain c s' where c: "s = c # s'" "in_class cs c" "(q, t) \<in> repeat (ends (Cls cs)) (length s') (Some c, s')"
      unfolding unf by (cases s) (simp_all split: if_splits)
    then obtain a where "s' = a @ t" "list_all (in_class cs) a" "q = (if a = [] then Some c else Some (last a))"
      unfolding repeat_Cls by blast
    with c show "\<exists>a. a \<noteq> [] \<and> s = a @ t \<and> list_all (in_class cs) a \<and> q = Some (last a)"
      by (intro exI[of _ "c # a"]) simp
  next
    assume "\<exists>a. a \<noteq> [] \<and> s = a @ t \<and> list_all (in_class cs) a \<and> q = Some (last a)"
    then obtain a0 where a0: "a0 \<noteq> []" "s = a0 @ t" "list_all (in_class cs) a0" "q = Some (last a0)" by blast
    then obtain c a where a: "s = (c # a) @ t" "list_all (in_class cs) (c # a)" "q = Some (last (c # a))"
      by (cases a0) auto
    then have "(q, t) \<in> repeat (ends (Cls cs)) (length (a @ t)) (Some c, a @ t)"
      unfolding repeat_Cls by (intro exI[of _ a]) simp
    with a show "(q, t) \<in> ends (Plus (Cls cs)) (p, s)" unfolding unf by simp
  qed
qed

lemma in_ends_Cls:
  "(q, t) \<in> ends (Cls cs) (p, s) \<longleftrightarrow> (\<exists>c. s = c # t \<and> in_class cs c \<and> q = Some c)"
  by (cases s) auto

lemma in_ends_Lit1:
  "(q, t) \<in> ends (Lit [c]) (p, s) \<longleftrightarrow> s = c # t \<and> q = Some c"
  by (cases s) (auto simp: startsWith_def)

lemma cursors_Some: "cur \<in> set (cursors (Some c) s) \<Longrightarrow> fst cur \<noteq> None"
  by (induction s arbitrary: c) auto

lemma test_Bol: "test (Cat Bol r) s \<longleftrightarrow> ends r (None, s) \<noteq> {}"
proof -
  have *: "ends (Cat Bol r) cur = {}" if "cur \<in> set (cursors (Some c) t)" for c t cur
    using cursors_Some[OF that] by auto
  have **: "\<not> list_ex (\<lambda>cur. ends (Cat Bol r) cur \<noteq> {}) (cursors (Some c) t)" for c t
    unfolding list_ex_iff using * by blast
  have ***: "ends (Cat Bol r) (None, x) = ends r (None, x)" for x by simp
  show ?thesis
  proof (cases s)
    case Nil
    then show ?thesis unfolding test_def by (simp del: ends.simps add: ***)
  next
    case (Cons c t)
    then show ?thesis unfolding test_def using **[of c t] by (simp del: ends.simps add: ***)
  qed
qed


lemma acc_iff: "acc r p s \<longleftrightarrow> (\<exists>q t. (q, t) \<in> ends r (p, s))"
  unfolding acc_def by auto

lemma acc_Cat: "acc (Cat r1 r2) p s \<longleftrightarrow> (\<exists>q t. (q, t) \<in> ends r1 (p, s) \<and> acc r2 q t)"
  unfolding acc_def by auto

lemma acc_Eol: "acc Eol p s \<longleftrightarrow> s = []"
  unfolding acc_def by simp

lemma acc_Cat_Plus:
  "acc (Cat (Plus (Cls cs)) r) p s \<longleftrightarrow>
     (\<exists>a t. a \<noteq> [] \<and> s = a @ t \<and> list_all (in_class cs) a \<and> acc r (Some (last a)) t)"
  unfolding acc_Cat in_ends_Plus_Cls by blast

lemma acc_Cat_Star:
  "acc (Cat (Star (Cls cs)) r) p s \<longleftrightarrow>
     (\<exists>a t. s = a @ t \<and> list_all (in_class cs) a \<and> acc r (if a = [] then p else Some (last a)) t)"
  unfolding acc_Cat in_ends_Star_Cls by blast

lemma acc_Cat_Cls:
  "acc (Cat (Cls cs) r) p s \<longleftrightarrow> (\<exists>c t. s = c # t \<and> in_class cs c \<and> acc r (Some c) t)"
  unfolding acc_Cat in_ends_Cls by blast

lemma acc_Cat_Lit1:
  "acc (Cat (Lit [c]) r) p s \<longleftrightarrow> (\<exists>t. s = c # t \<and> acc r (Some c) t)"
  unfolding acc_Cat in_ends_Lit1 by blast

lemma acc_Cat_Opt: "acc (Cat (Opt r1) r2) p s \<longleftrightarrow> acc r2 p s \<or> acc (Cat r1 r2) p s"
  unfolding acc_def by auto

lemma acc_Cat_assoc: "acc (Cat (Cat r1 r2) r3) p s \<longleftrightarrow> acc (Cat r1 (Cat r2 r3)) p s"
  unfolding acc_def by simp

lemma test_Alt: "test (Alt r1 r2) s \<longleftrightarrow> test r1 s \<or> test r2 s"
  unfolding test_def list_ex_iff by auto

lemma test_Bol_acc: "test (Cat Bol r) s \<longleftrightarrow> acc r None s"
  unfolding acc_def by (rule test_Bol)

lemma id_part_iff:
  "id_part p \<longleftrightarrow>
     (\<exists>c. p = [c] \<and> lower_or_digit c) \<or>
     (\<exists>c m d. p = c # m @ [d] \<and> lower_or_digit c \<and>
        list_all (\<lambda>x. lower_or_digit x \<or> x = CHR ''-'') m \<and> lower_or_digit d)"
proof (cases p)
  case Nil
  then show ?thesis by simp
next
  case (Cons c m)
  show ?thesis
  proof (cases "m = []")
    case True
    with Cons show ?thesis by simp
  next
    case False
    then obtain x xs where m: "m = x # xs" by (cases m) auto
    have split: "m = butlast m @ [last m]" using False by simp
    have "id_part p \<longleftrightarrow> lower_or_digit c \<and> list_all (\<lambda>x. lower_or_digit x \<or> x = CHR ''-'') (butlast m) \<and>
      lower_or_digit (last m)"
      unfolding Cons m by simp
    also have "\<dots> \<longleftrightarrow> (\<exists>m' d. m = m' @ [d] \<and> lower_or_digit c \<and>
        list_all (\<lambda>x. lower_or_digit x \<or> x = CHR ''-'') m' \<and> lower_or_digit d)"
    proof
      assume "lower_or_digit c \<and> list_all (\<lambda>x. lower_or_digit x \<or> x = CHR ''-'') (butlast m) \<and>
         lower_or_digit (last m)"
      with split show "\<exists>m' d. m = m' @ [d] \<and> lower_or_digit c \<and>
        list_all (\<lambda>x. lower_or_digit x \<or> x = CHR ''-'') m' \<and> lower_or_digit d"
        by blast
    next
      assume "\<exists>m' d. m = m' @ [d] \<and> lower_or_digit c \<and>
        list_all (\<lambda>x. lower_or_digit x \<or> x = CHR ''-'') m' \<and> lower_or_digit d"
      then obtain m' d where "m = m' @ [d]" "lower_or_digit c"
        "list_all (\<lambda>x. lower_or_digit x \<or> x = CHR ''-'') m'" "lower_or_digit d" by blast
      then show "lower_or_digit c \<and> list_all (\<lambda>x. lower_or_digit x \<or> x = CHR ''-'') (butlast m) \<and>
         lower_or_digit (last m)" by simp
    qed
    finally show ?thesis using Cons False by auto
  qed
qed

lemma lower_digit_hyphen_iff:
  "in_class (lower_digit @ [CChar CHR ''-'']) c \<longleftrightarrow> lower_or_digit c \<or> c = CHR ''-''"
  using lower_digit_iff[of c] by (simp add: in_class_def)

lemma test_partPattern: "test partPattern p = id_part p"
proof -
  have "test partPattern p \<longleftrightarrow>
     (\<exists>c t. p = c # t \<and> lower_or_digit c \<and>
        (\<exists>a t'. t = a @ t' \<and> list_all (\<lambda>x. lower_or_digit x \<or> x = CHR ''-'') a \<and>
           (\<exists>d. t' = [d] \<and> lower_or_digit d))) \<or>
     (\<exists>c. p = [c] \<and> lower_or_digit c)"
    unfolding partPattern_def seq.simps test_Alt test_Bol_acc acc_Cat_Cls acc_Cat_Star acc_Eol
      lower_digit_iff lower_digit_hyphen_iff
    by simp
  also have "\<dots> \<longleftrightarrow> id_part p"
    unfolding id_part_iff by auto
  finally show ?thesis .
qed


lemma digit_iff: "in_class digit c = is_digit c"
  unfolding is_digit_def digit_range
  by (simp add: in_class_def digit_def)

lemma semver_tail_iff: "in_class semver_tail c = is_tail_char c"
  unfolding is_tail_char_def lower_range upper_range digit_range
  by (simp add: in_class_def semver_tail_def)

lemma list_all_digit: "list_all (in_class digit) a = list_all is_digit a"
  by (simp add: list_all_iff digit_iff)

lemma list_all_tail: "list_all (in_class semver_tail) a = list_all is_tail_char a"
  by (simp add: list_all_iff semver_tail_iff)

lemma acc_suffix:
  "acc (Cat (Opt (Cat (Lit [m]) (Plus (Cls semver_tail)))) r) p s \<longleftrightarrow>
     (\<exists>x t. s = x @ t \<and> opt_suffix m x \<and> acc r (if x = [] then p else Some (last x)) t)"
  (is "?L = ?R")
proof -
  have L: "?L \<longleftrightarrow> acc r p s \<or>
      (\<exists>t'. s = m # t' \<and> (\<exists>a t. a \<noteq> [] \<and> t' = a @ t \<and> list_all is_tail_char a \<and> acc r (Some (last a)) t))"
    unfolding acc_Cat_Opt acc_Cat_assoc acc_Cat_Lit1 acc_Cat_Plus list_all_tail ..
  show ?thesis
  proof
    assume ?L
    with L consider "acc r p s"
      | a t where "s = m # a @ t" "a \<noteq> []" "list_all is_tail_char a" "acc r (Some (last a)) t"
      by blast
    then show ?R
    proof cases
      case 1
      then show ?thesis by (intro exI[of _ "[]"] exI[of _ s]) (simp add: opt_suffix_def)
    next
      case 2
      then show ?thesis by (intro exI[of _ "m # a"] exI[of _ t]) (simp add: opt_suffix_def)
    qed
  next
    assume ?R
    then obtain x t where x: "s = x @ t" "opt_suffix m x" "acc r (if x = [] then p else Some (last x)) t"
      by blast
    show ?L
    proof (cases x)
      case Nil
      with x L show ?thesis by simp
    next
      case (Cons c a)
      with x have "c = m" "a \<noteq> []" "list_all is_tail_char a" "acc r (Some (last a)) t" "s = m # a @ t"
        by (simp_all add: opt_suffix_def)
      with L show ?thesis by blast
    qed
  qed
qed

lemma semver_unfold:
  "test semverPattern v \<longleftrightarrow>
    (\<exists>a t1. a \<noteq> [] \<and> v = a @ t1 \<and> list_all is_digit a \<and>
      (\<exists>t2. t1 = CHR ''.'' # t2 \<and>
        (\<exists>b t3. b \<noteq> [] \<and> t2 = b @ t3 \<and> list_all is_digit b \<and>
          (\<exists>t4. t3 = CHR ''.'' # t4 \<and>
            (\<exists>c t5. c \<noteq> [] \<and> t4 = c @ t5 \<and> list_all is_digit c \<and>
               (\<exists>pre t6. t5 = pre @ t6 \<and> opt_suffix CHR ''-'' pre \<and>
                  (\<exists>build t7. t6 = build @ t7 \<and> opt_suffix CHR ''+'' build \<and> t7 = [])))))))"
  unfolding semverPattern_def seq.simps test_Bol_acc acc_Cat_Plus acc_Cat_Lit1 acc_suffix acc_Eol
      list_all_digit ..

lemma semver_sound:
  assumes "test semverPattern v"
  shows "\<exists>a b c pre build. v = a @ ''.'' @ b @ ''.'' @ c @ pre @ build \<and>
        numeric a \<and> numeric b \<and> numeric c \<and>
        opt_suffix CHR ''-'' pre \<and> opt_suffix CHR ''+'' build"
proof -
  from assms obtain a t1 t2 b t3 t4 c t5 pre t6 build t7 where d:
      "a \<noteq> []" "v = a @ t1" "list_all is_digit a" "t1 = CHR ''.'' # t2"
      "b \<noteq> []" "t2 = b @ t3" "list_all is_digit b" "t3 = CHR ''.'' # t4"
      "c \<noteq> []" "t4 = c @ t5" "list_all is_digit c" "t5 = pre @ t6" "opt_suffix CHR ''-'' pre"
      "t6 = build @ t7" "opt_suffix CHR ''+'' build" "t7 = []"
    unfolding semver_unfold by (elim exE conjE) (rule that)
  have v: "v = a @ ''.'' @ b @ ''.'' @ c @ pre @ build"
    by (simp add: d(2,4,6,8,10,12,14,16))
  have n: "numeric a" "numeric b" "numeric c"
    using d by (simp_all add: numeric_def)
  show ?thesis
    by (rule exI[of _ a], rule exI[of _ b], rule exI[of _ c], rule exI[of _ pre], rule exI[of _ build])
       (intro conjI v n d(13) d(15))
qed

lemma semver_complete:
  assumes "numeric a" "numeric b" "numeric c" "opt_suffix CHR ''-'' pre" "opt_suffix CHR ''+'' build"
  shows "test semverPattern (a @ ''.'' @ b @ ''.'' @ c @ pre @ build)"
proof -
  have na: "a \<noteq> []" "list_all is_digit a" and nb: "b \<noteq> []" "list_all is_digit b"
    and nc: "c \<noteq> []" "list_all is_digit c"
    using assms(1-3) by (simp_all add: numeric_def)
  have 5: "\<exists>build' t7. build = build' @ t7 \<and> opt_suffix CHR ''+'' build' \<and> t7 = []"
    by (rule exI[of _ build], rule exI[of _ "[]"]) (simp add: assms(5))
  have 4: "\<exists>pre' t6. pre @ build = pre' @ t6 \<and> opt_suffix CHR ''-'' pre' \<and>
                  (\<exists>build' t7. t6 = build' @ t7 \<and> opt_suffix CHR ''+'' build' \<and> t7 = [])"
    by (rule exI[of _ pre], rule exI[of _ build]) (intro conjI refl assms(4) 5)
  have 3: "\<exists>c' t5. c' \<noteq> [] \<and> c @ pre @ build = c' @ t5 \<and> list_all is_digit c' \<and>
               (\<exists>pre' t6. t5 = pre' @ t6 \<and> opt_suffix CHR ''-'' pre' \<and>
                  (\<exists>build' t7. t6 = build' @ t7 \<and> opt_suffix CHR ''+'' build' \<and> t7 = []))"
    by (rule exI[of _ c], rule exI[of _ "pre @ build"]) (intro conjI refl nc 4)
  have s2: "\<exists>t4. CHR ''.'' # c @ pre @ build = CHR ''.'' # t4 \<and>
            (\<exists>c' t5. c' \<noteq> [] \<and> t4 = c' @ t5 \<and> list_all is_digit c' \<and>
               (\<exists>pre' t6. t5 = pre' @ t6 \<and> opt_suffix CHR ''-'' pre' \<and>
                  (\<exists>build' t7. t6 = build' @ t7 \<and> opt_suffix CHR ''+'' build' \<and> t7 = [])))"
    by (rule exI[of _ "c @ pre @ build"]) (intro conjI refl 3)
  have 2: "\<exists>b' t3. b' \<noteq> [] \<and> b @ CHR ''.'' # c @ pre @ build = b' @ t3 \<and> list_all is_digit b' \<and>
          (\<exists>t4. t3 = CHR ''.'' # t4 \<and>
            (\<exists>c' t5. c' \<noteq> [] \<and> t4 = c' @ t5 \<and> list_all is_digit c' \<and>
               (\<exists>pre' t6. t5 = pre' @ t6 \<and> opt_suffix CHR ''-'' pre' \<and>
                  (\<exists>build' t7. t6 = build' @ t7 \<and> opt_suffix CHR ''+'' build' \<and> t7 = []))))"
    by (rule exI[of _ b], rule exI[of _ "CHR ''.'' # c @ pre @ build"]) (intro conjI refl nb s2)
  have s1: "\<exists>t2. CHR ''.'' # b @ CHR ''.'' # c @ pre @ build = CHR ''.'' # t2 \<and>
       (\<exists>b' t3. b' \<noteq> [] \<and> t2 = b' @ t3 \<and> list_all is_digit b' \<and>
          (\<exists>t4. t3 = CHR ''.'' # t4 \<and>
            (\<exists>c' t5. c' \<noteq> [] \<and> t4 = c' @ t5 \<and> list_all is_digit c' \<and>
               (\<exists>pre' t6. t5 = pre' @ t6 \<and> opt_suffix CHR ''-'' pre' \<and>
                  (\<exists>build' t7. t6 = build' @ t7 \<and> opt_suffix CHR ''+'' build' \<and> t7 = [])))))"
    by (rule exI[of _ "b @ CHR ''.'' # c @ pre @ build"]) (intro conjI refl 2)
  have 1: "\<exists>a' t1. a' \<noteq> [] \<and> a @ CHR ''.'' # b @ CHR ''.'' # c @ pre @ build = a' @ t1 \<and> list_all is_digit a' \<and>
      (\<exists>t2. t1 = CHR ''.'' # t2 \<and>
       (\<exists>b' t3. b' \<noteq> [] \<and> t2 = b' @ t3 \<and> list_all is_digit b' \<and>
          (\<exists>t4. t3 = CHR ''.'' # t4 \<and>
            (\<exists>c' t5. c' \<noteq> [] \<and> t4 = c' @ t5 \<and> list_all is_digit c' \<and>
               (\<exists>pre' t6. t5 = pre' @ t6 \<and> opt_suffix CHR ''-'' pre' \<and>
                  (\<exists>build' t7. t6 = build' @ t7 \<and> opt_suffix CHR ''+'' build' \<and> t7 = []))))))"
    by (rule exI[of _ a], rule exI[of _ "CHR ''.'' # b @ CHR ''.'' # c @ pre @ build"]) (intro conjI refl na s1)
  have e: "a @ ''.'' @ b @ ''.'' @ c @ pre @ build = a @ CHR ''.'' # b @ CHR ''.'' # c @ pre @ build"
    by simp
  show ?thesis unfolding semver_unfold e by (rule 1)
qed

lemma test_semverPattern:
  "test semverPattern v \<longleftrightarrow>
     (\<exists>a b c pre build. v = a @ ''.'' @ b @ ''.'' @ c @ pre @ build \<and>
        numeric a \<and> numeric b \<and> numeric c \<and>
        opt_suffix CHR ''-'' pre \<and> opt_suffix CHR ''+'' build)"
proof
  assume "test semverPattern v"
  then show "\<exists>a b c pre build. v = a @ ''.'' @ b @ ''.'' @ c @ pre @ build \<and>
        numeric a \<and> numeric b \<and> numeric c \<and>
        opt_suffix CHR ''-'' pre \<and> opt_suffix CHR ''+'' build"
    by (rule semver_sound)
next
  assume "\<exists>a b c pre build. v = a @ ''.'' @ b @ ''.'' @ c @ pre @ build \<and>
        numeric a \<and> numeric b \<and> numeric c \<and>
        opt_suffix CHR ''-'' pre \<and> opt_suffix CHR ''+'' build"
  then obtain a b c pre build where "v = a @ ''.'' @ b @ ''.'' @ c @ pre @ build"
     "numeric a" "numeric b" "numeric c" "opt_suffix CHR ''-'' pre" "opt_suffix CHR ''+'' build"
    by (elim exE conjE) (rule that)
  then show "test semverPattern v" using semver_complete by simp
qed

section \<open>The identifier and version formats\<close>

lemma test_partPattern_eq: "list_all (test partPattern) ps = list_all id_part ps"
  by (simp add: list_all_iff test_partPattern)

text \<open>
  C7. For every string \<open>i\<close>, \<open>isValidPluginId\<close> returns without raising, and it accepts
  \<open>i\<close> exactly if \<open>i\<close> splits on the dot into at least two parts each of which is a
  single lower-case letter or digit, or starts and ends with a lower-case letter or digit
  with only lower-case letters, digits and hyphens between.
\<close>

theorem isValidPluginId_accepts:
  "isValidPluginId (JStr i) =
     Inr (2 \<le> length (js_split CHR ''.'' i) \<and> list_all id_part (js_split CHR ''.'' i))"
proof (cases "length (js_split CHR ''.'' i) < 2")
  case True
  then show ?thesis by (simp add: Let_def)
next
  case False
  then show ?thesis by (simp add: Let_def test_partPattern_eq)
qed

theorem isValidPluginId_accepts_witness:
  "isValidPluginId (JStr ''com.a-1.b'') = Inr True \<and> isValidPluginId (JStr ''com'') = Inr False \<and>
   isValidPluginId (JStr ''com..b'') = Inr False \<and> isValidPluginId (JStr ''com.B'') = Inr False \<and>
   isValidPluginId (JStr ''com.-b'') = Inr False \<and> isValidPluginId (JStr ''com.b-'') = Inr False"
  unfolding isValidPluginId_accepts
  by (simp add: lower_or_digit_def ascii_lower_def ascii_digits_def)

text \<open>
  C9. For every string \<open>v\<close>, \<open>isValidSemver\<close> returns without raising, and it accepts \<open>v\<close>
  exactly if \<open>v\<close> is three non-empty runs of digits separated by dots, followed by an
  optional pre-release suffix marked by a hyphen, then an optional build suffix marked by
  a plus sign, and nothing else.
\<close>

theorem isValidSemver_accepts:
  "(\<exists>b. isValidSemver (JStr v) = Inr b) \<and>
   (isValidSemver (JStr v) = Inr True \<longleftrightarrow>
      (\<exists>a b c pre build. v = a @ ''.'' @ b @ ''.'' @ c @ pre @ build \<and>
         numeric a \<and> numeric b \<and> numeric c \<and>
         opt_suffix CHR ''-'' pre \<and> opt_suffix CHR ''+'' build))"
  unfolding test_semverPattern [symmetric] by (simp add: isValidSemver_def)

theorem isValidSemver_accepts_witness:
  "isValidSemver (JStr ''1.20.3-rc.1+build-5'') = Inr True"
proof -
  have "''1.20.3-rc.1+build-5'' = ''1'' @ ''.'' @ ''20'' @ ''.'' @ ''3'' @ ''-rc.1'' @ ''+build-5'' \<and>
        numeric ''1'' \<and> numeric ''20'' \<and> numeric ''3'' \<and>
        opt_suffix CHR ''-'' ''-rc.1'' \<and> opt_suffix CHR ''+'' ''+build-5''"
    by (simp add: numeric_def opt_suffix_def is_digit_def is_tail_char_def
          ascii_lower_def ascii_upper_def ascii_digits_def)
  then have "\<exists>a b c pre build. ''1.20.3-rc.1+build-5'' = a @ ''.'' @ b @ ''.'' @ c @ pre @ build \<and>
        numeric a \<and> numeric b \<and> numeric c \<and>
        opt_suffix CHR ''-'' pre \<and> opt_suffix CHR ''+'' build"
    by blast
  then show ?thesis
    using isValidSemver_accepts [of "''1.20.3-rc.1+build-5''"] by (simp only:)
qed

section \<open>The flag of a validation result\<close>

lemma passed_addCheck: "passed (addCheck nm p d r) = (passed r \<and> p)"
  by (simp add: addCheck_def Let_def)

lemma passed_addWarning: "passed (addWarning w r) = passed r"
  by (simp add: addWarning_def)

lemma passed_addError: "passed (addError msg r) = False"
  by (simp add: addError_def)

lemma passed_apply_operation: "passed (apply_operation r x) = (passed r \<and> \<not> failing x)"
  by (cases x) (auto simp: passed_addCheck passed_addWarning passed_addError)

lemma passed_apply_operations:
  "passed (apply_operations r xs) = (passed r \<and> \<not> list_ex failing xs)"
  unfolding apply_operations_def
  by (induction xs arbitrary: r) (auto simp: passed_apply_operation)

text \<open>
  C2. After any sequence of \<open>addCheck\<close>, \<open>addWarning\<close> and \<open>addError\<close> calls on a new
  result, the flag is false exactly if some check of the sequence failed or some error
  was added; a warning leaves the flag as it was; and from a false flag no sequence of
  calls leads to a true one.
\<close>

theorem passed_flag:
  "(passed (apply_operations (new_ValidationResult pid) xs) = False \<longleftrightarrow> list_ex failing xs) \<and>
   passed (apply_operation r (AddWarning w)) = passed r \<and>
   (\<not> passed r \<longrightarrow> \<not> passed (apply_operations r xs))"
  by (simp add: passed_apply_operations passed_addWarning new_ValidationResult_def)

theorem passed_flag_witness:
  "passed (apply_operations (new_ValidationResult (JStr ''p''))
      [AddCheck ''Valid JSON'' True JNull, AddWarning ''w'', AddCheck ''IDs match'' False JNull,
       AddCheck ''Version format'' True JNull]) = False \<and>
   \<not> passed (addError ''e'' (new_ValidationResult (JStr ''p''))) \<and>
   \<not> passed (apply_operations (addError ''e'' (new_ValidationResult (JStr ''p'')))
      [AddCheck ''Valid JSON'' True JNull, AddWarning ''w''])"
  using passed_flag [of "JStr ''p''"
      "[AddCheck ''Valid JSON'' True JNull, AddWarning ''w'', AddCheck ''IDs match'' False JNull,
        AddCheck ''Version format'' True JNull]" "new_ValidationResult (JStr ''p'')" "''w''"]
    passed_flag [of "JStr ''p''" "[AddCheck ''Valid JSON'' True JNull, AddWarning ''w'']"
      "addError ''e'' (new_ValidationResult (JStr ''p''))" "''w''"]
  by (simp add: passed_addError)

section \<open>Fetching with one fallback\<close>


lemma fetchFromGitHub_main:
  assumes "parseGitHubUrl repoUrl = Inr (Some (owner, repo))" "to_str filePath = Inr fp"
  shows "fetchFromGitHub E repoUrl filePath ''main'' =
     (case fetch E (raw_url owner repo ''main'' fp) of
        Inl e \<Rightarrow> (Inl e, [raw_url owner repo ''main'' fp])
      | Inr resp \<Rightarrow>
          if ok resp then (Inr (body resp), [raw_url owner repo ''main'' fp])
          else (fst (fetchFromGitHub E repoUrl filePath ''master''),
                raw_url owner repo ''main'' fp # snd (fetchFromGitHub E repoUrl filePath ''master'')))"
  using assms by (subst fetchFromGitHub.simps) (simp add: Let_def split: sum.splits prod.splits)




lemma fetchManifest_other:
  assumes "parseGitHubUrl repoUrl = Inr (Some (owner, repo))" 
    and "branch \<noteq> ''main''"
  shows "fetchManifest E repoUrl branch =
     (case fetch E (raw_url owner repo branch ''manifest.json'') of
        Inl e \<Rightarrow> (Inl e, [raw_url owner repo branch ''manifest.json''])
      | Inr resp \<Rightarrow>
          if ok resp then (JSON_parse E (body resp), [raw_url owner repo branch ''manifest.json''])
          else (Inl (Error (''Failed to fetch manifest: '' @ show_nat (status resp))),
                [raw_url owner repo branch ''manifest.json'']))"
  using assms by (subst fetchManifest.simps) (simp add: Let_def split: sum.splits)

lemma fetchManifest_main:
  assumes "parseGitHubUrl repoUrl = Inr (Some (owner, repo))"
  shows "fetchManifest E repoUrl ''main'' =
     (case fetch E (raw_url owner repo ''main'' ''manifest.json'') of
        Inl e \<Rightarrow> (Inl e, [raw_url owner repo ''main'' ''manifest.json''])
      | Inr resp \<Rightarrow>
          if ok resp then (JSON_parse E (body resp), [raw_url owner repo ''main'' ''manifest.json''])
          else (fst (fetchManifest E repoUrl ''master''),
                raw_url owner repo ''main'' ''manifest.json'' # snd (fetchManifest E repoUrl ''master'')))"
  using assms by (subst fetchManifest.simps) (simp add: Let_def split: sum.splits prod.splits)



lemma parse_ab: "parseGitHubUrl (JStr ''https://github.com/a/b'') = Inr (Some (''a'', ''b''))"
  by (simp add: match_repo_def startsWith_def not_slash_def strip_git_def endsWith_def)





section \<open>The entries of the directory\<close>

lemma processFile_added:
  assumes "read_json E (path_join dir file) = Inr sub" and "\<not> nullish sub"
    and "fetchManifest E (get sub ''repo'') ''main'' = (Inr m, reqs)" and "\<not> nullish m"
  shows "processFile E dir st file =
     st\<lparr>plugins := plugins st @ [directoryEntry sub m (clock E (clock_reads st))],
        requested := requested st @ reqs, clock_reads := Suc (clock_reads st)\<rparr>"
  using assms by (simp add: processFile_def)


lemma get_entry_required:
  "get (directoryEntry sub m now) ''id'' = get m ''id''"
  "get (directoryEntry sub m now) ''name'' = get m ''name''"
  "get (directoryEntry sub m now) ''description'' = get m ''description''"
  "get (directoryEntry sub m now) ''author'' = get m ''author''"
  "get (directoryEntry sub m now) ''version'' = get m ''version''"
  "get (directoryEntry sub m now) ''minAppVersion'' = get m ''minAppVersion''"
  "get (directoryEntry sub m now) ''repo'' = get sub ''repo''"
  "get (directoryEntry sub m now) ''permissions'' =
     (if truthy (get m ''permissions'') then get m ''permissions'' else JArr [])"
  by (simp_all add: directoryEntry_def)








lemma parse_cd: "parseGitHubUrl (JStr ''https://github.com/c/d'') = Inr (Some (''c'', ''d''))"
  by (simp add: match_repo_def startsWith_def not_slash_def strip_git_def endsWith_def)

lemma read_cd: "read_json world_two (path_join ''plugins'' ''com.c.d.json'') = Inr sub_cd"
  by (simp add: read_json_def path_join_def world_two_def read_example_def parse_example_def)

lemma fetch_cd:
  "fetchManifest world_two (JStr ''https://github.com/c/d'') ''main'' =
     (Inr man_cd, [''https://raw.githubusercontent.com/c/d/main/manifest.json'',
                   ''https://raw.githubusercontent.com/c/d/master/manifest.json''])"
proof -
  have "fetchManifest world_two (JStr ''https://github.com/c/d'') ''master'' =
     (Inr man_cd, [''https://raw.githubusercontent.com/c/d/master/manifest.json''])"
    by (subst fetchManifest_other [OF parse_cd])
       (simp_all add: raw_url_def world_two_def fetch_example_def ok_def parse_example_def)
  then show ?thesis
    by (subst fetchManifest_main [OF parse_cd])
       (simp add: raw_url_def world_two_def fetch_example_def ok_def not_found_def)
qed


section \<open>The checks of the validator\<close>

lemma addCheck_fields [simp]:
  "checks (addCheck nm p d r) = checks r @ [\<lparr>check_name = nm, check_passed = p, check_details = d\<rparr>]"
  "warnings (addCheck nm p d r) = warnings r"
  "errors (addCheck nm p d r) = errors r"
  "manifest (addCheck nm p d r) = manifest r"
  "pluginId (addCheck nm p d r) = pluginId r"
  by (simp_all add: addCheck_def Let_def)

lemma addWarning_fields [simp]:
  "checks (addWarning w r) = checks r"
  "warnings (addWarning w r) = warnings r @ [w]"
  "errors (addWarning w r) = errors r"
  "manifest (addWarning w r) = manifest r"
  "pluginId (addWarning w r) = pluginId r"
  by (simp_all add: addWarning_def)

lemma new_fields [simp]:
  "checks (new_ValidationResult p) = []"
  "warnings (new_ValidationResult p) = []"
  "errors (new_ValidationResult p) = []"
  "manifest (new_ValidationResult p) = JNull"
  "passed (new_ValidationResult p) = True"
  by (simp_all add: new_ValidationResult_def)

lemma check_names_simps [simp]:
  "check_names (addCheck nm p d r) = check_names r @ [nm]"
  "check_names (addWarning w r) = check_names r"
  "check_names (new_ValidationResult pid) = []"
  "check_names (r\<lparr>pluginId := x\<rparr>) = check_names r"
  "check_names (r\<lparr>manifest := m\<rparr>) = check_names r"
  by (simp_all add: check_names_def)

text \<open>The result with which check 6 starts, when checks 1 to 3 have passed.\<close>

lemma validatePlugin_reaches_manifest:
  assumes "read_json E path = Inr sub" and "\<not> nullish sub"
    and "missing_fields REQUIRED_SUBMISSION_FIELDS sub = []"
    and "get sub ''id'' = JStr sid" and "isValidPluginId (JStr sid) = Inr True"
  shows "validatePlugin E path dir =
     checkManifest E sub
       (duplicateWarning E (JStr sid) dir
         (checkFilename (basename path) sid
           (addCheck ''Plugin ID format'' True JNull
             ((addCheck ''Required fields'' True JNull
                (addCheck ''Valid JSON'' True JNull
                  (new_ValidationResult (JStr (remove_first ''.json'' (basename path))))))
              \<lparr>pluginId := JStr sid\<rparr>))))"
  using assms by (simp add: validatePlugin_def checkSubmission_def Let_def)

lemma checkManifest_unreachable:
  assumes "fetchManifestJson E sub = (Inl e, reqs)"
  shows "checkManifest E sub r = (Inr (addCheck ''Repo accessible'' False (JStr (message e)) r), reqs)"
  using assms by (simp add: checkManifest_def)





lemma read_ab:
  "read_json world_down ''plugins/com.a.b.json'' = Inr sub_ab"
  "read_json world_down (path_join ''plugins'' ''com.a.b.json'') = Inr sub_ab"
  "read_json world_one ''plugins/com.a.b.json'' = Inr sub_ab"
  "read_json world_one (path_join ''plugins'' ''com.a.b.json'') = Inr sub_ab"
  "read_json world_one ''incoming/foo.json'' = Inr sub_ab"
  by (simp_all add: read_json_def path_join_def world_down_def world_one_def read_example_def
        parse_example_def)

lemma sub_ab_fields:
  "\<not> nullish sub_ab" "missing_fields REQUIRED_SUBMISSION_FIELDS sub_ab = []"
  "get sub_ab ''id'' = JStr ''com.a.b''" "get sub_ab ''repo'' = JStr ''https://github.com/a/b''"
  by (simp_all add: sub_ab_def missing_fields_def REQUIRED_SUBMISSION_FIELDS_def)

lemma valid_com_a_b: "isValidPluginId (JStr ''com.a.b'') = Inr True"
  by (simp add: Let_def test_partPattern lower_or_digit_def ascii_lower_def ascii_digits_def)


section \<open>The first example, step by step\<close>

lemma fetch_ab_manifest:
  "fetchManifestJson world_one sub_ab =
     (Inr man_ab, [''https://raw.githubusercontent.com/a/b/main/manifest.json''])"
proof -
  have t: "to_str (JStr ''manifest.json'') = Inr ''manifest.json''" by simp
  have "fetchFromGitHub world_one (JStr ''https://github.com/a/b'') (JStr ''manifest.json'') ''main'' =
     (Inr ''manifest of a/b'', [''https://raw.githubusercontent.com/a/b/main/manifest.json''])"
    by (subst fetchFromGitHub_main [OF parse_ab t])
       (simp add: raw_url_def world_one_def fetch_example_def ok_def)
  then show ?thesis
    by (simp add: fetchManifestJson_def sub_ab_fields world_one_def parse_example_def)
qed

lemma scan_run: "scan ''run()'' r = r"
  by (simp add: scan_def scan_pattern_def DANGEROUS_PATTERNS_def test_def startsWith_def
        in_class_def space_def is_word_def word_chars_def)

lemma fetch_ab_main:
  "fetchFromGitHub world_one (JStr ''https://github.com/a/b'') (JStr ''main.js'') ''main'' =
     (Inr ''run()'', [''https://raw.githubusercontent.com/a/b/main/main.js''])"
proof -
  have t: "to_str (JStr ''main.js'') = Inr ''main.js''" by simp
  show ?thesis
    by (subst fetchFromGitHub_main [OF parse_ab t])
       (simp add: raw_url_def world_one_def fetch_example_def ok_def)
qed

lemma man_ab_fields:
  "\<not> nullish man_ab" "missing_fields REQUIRED_MANIFEST_FIELDS man_ab = []"
  "get man_ab ''id'' = JStr ''com.a.b''" "get man_ab ''version'' = JStr ''1.0.0''"
  "get man_ab ''permissions'' = JArr [JStr ''read:goals'', JStr ''network'']"
  "get man_ab ''main'' = JStr ''main.js''" "get man_ab ''helpUrl'' = JUndefined"
  "get man_ab ''category'' = JUndefined"
  by (simp_all add: man_ab_def missing_fields_def REQUIRED_MANIFEST_FIELDS_def)

lemma securityChecks_ab:
  "securityChecks world_one sub_ab man_ab r = (r, [''https://raw.githubusercontent.com/a/b/main/main.js''])"
  by (simp add: securityChecks_def sub_ab_fields man_ab_fields fetch_ab_main scan_run)

lemma semver_100: "isValidSemver (JStr ''1.0.0'') = Inr True"
  by (simp add: isValidSemver_def test_def semverPattern_def digit_def semver_tail_def in_class_def
        startsWith_def)

lemma manifestChecks_ab:
  "manifestChecks sub_ab man_ab r =
     Inr (addWarning ''Consider adding a `category` for better discoverability''
           (addWarning ''Consider adding a `helpUrl` for documentation''
             (addWarning (dangerous_warning ''network'')
               (addCheck ''Valid permissions'' True JNull
                 (addCheck ''Version format'' True (JStr ''1.0.0'')
                   (addCheck ''IDs match'' True JNull r))))))"
  by (simp add: manifestChecks_def checkIdsMatch_def checkVersion_def checkPermissions_def
        warningChecks_def dangerousWarning_def optionalFieldWarnings_def permissionCountWarning_def
        and_then_def sub_ab_fields man_ab_fields semver_100 optional_array_def
        or_empty_def VALID_PERMISSIONS_def DANGEROUS_PERMISSIONS_def join_js_def Let_def)

lemma checkManifest_ab:
  "checkManifest world_one sub_ab r =
     (Inr (after_manifest_ab r),
      [''https://raw.githubusercontent.com/a/b/main/manifest.json'',
       ''https://raw.githubusercontent.com/a/b/main/main.js''])"
  by (simp add: checkManifest_def fetch_ab_manifest man_ab_fields manifestChecks_ab securityChecks_ab
        Let_def after_manifest_ab_def)

section \<open>How a result grows\<close>






















lemma basename_ab: "basename ''plugins/com.a.b.json'' = ''com.a.b.json''"
  by (simp add: basename_def)


section \<open>The duplicate check\<close>

lemma duplicateWarning_only_warns:
  "checks (duplicateWarning E pid dir r) = checks r"
  "errors (duplicateWarning E pid dir r) = errors r"
  "passed (duplicateWarning E pid dir r) = passed r"
  "manifest (duplicateWarning E pid dir r) = manifest r"
  by (simp_all add: duplicateWarning_def passed_addWarning)

lemma checkDuplicate_one: "checkDuplicate world_one (JStr ''com.a.b'') ''plugins''"
proof -
  have "readdirSync world_one ''plugins'' = [''com.a.b.json'']"
    by (simp add: world_one_def)
  moreover have "endsWith ''com.a.b.json'' ''.json''"
    by (simp add: endsWith_def)
  moreover have "has_id world_one (JStr ''com.a.b'') (path_join ''plugins'' ''com.a.b.json'')"
    by (simp add: has_id_def read_ab(4) sub_ab_fields)
  ultimately show ?thesis
    by (simp add: checkDuplicate_def)
qed

lemma before_manifest_fields:
  fixes E pid dir fn sid p q
  defines "r4 \<equiv> duplicateWarning E pid dir
         (checkFilename fn sid
           (addCheck ''Plugin ID format'' True JNull
             ((addCheck ''Required fields'' True JNull
                (addCheck ''Valid JSON'' True JNull (new_ValidationResult p)))
              \<lparr>pluginId := q\<rparr>)))"
  shows "passed r4 = (fn = sid @ ''.json'')"
    and "warnings r4 =
       (if checkDuplicate E pid dir
        then [''Plugin ID already exists - this will update the existing entry''] else [])"
    and "check_names r4 = [''Valid JSON'', ''Required fields'', ''Plugin ID format'',
                           ''Filename matches ID'']"
  unfolding r4_def
  by (simp_all add: duplicateWarning_def checkFilename_def Let_def passed_addCheck passed_addWarning)

lemma after_manifest_ab_fields:
  "passed (after_manifest_ab r) = passed r"
  "warnings (after_manifest_ab r) =
     warnings r @ [dangerous_warning ''network'', ''Consider adding a `helpUrl` for documentation'',
                   ''Consider adding a `category` for better discoverability'']"
  "check_names (after_manifest_ab r) =
     check_names r @ [''Repo accessible'', ''Manifest found'', ''Manifest valid'', ''IDs match'',
                      ''Version format'', ''Valid permissions'']"
  "manifest (after_manifest_ab r) = man_ab"
  by (simp_all add: after_manifest_ab_def passed_addCheck passed_addWarning)

lemma example_one_result:
  "\<exists>r4. validatePlugin world_one ''plugins/com.a.b.json'' ''plugins'' =
          (Inr (after_manifest_ab r4),
           [''https://raw.githubusercontent.com/a/b/main/manifest.json'',
            ''https://raw.githubusercontent.com/a/b/main/main.js'']) \<and>
        passed r4 \<and>
        warnings r4 = [''Plugin ID already exists - this will update the existing entry'']"
proof -
  let ?r4 = "duplicateWarning world_one (JStr ''com.a.b'') ''plugins''
         (checkFilename (basename ''plugins/com.a.b.json'') ''com.a.b''
           (addCheck ''Plugin ID format'' True JNull
             ((addCheck ''Required fields'' True JNull
                (addCheck ''Valid JSON'' True JNull
                  (new_ValidationResult (JStr (remove_first ''.json'' (basename ''plugins/com.a.b.json''))))))
              \<lparr>pluginId := JStr ''com.a.b''\<rparr>)))"
  let ?reqs = "[''https://raw.githubusercontent.com/a/b/main/manifest.json'',
                ''https://raw.githubusercontent.com/a/b/main/main.js'']"
  have "validatePlugin world_one ''plugins/com.a.b.json'' ''plugins'' = checkManifest world_one sub_ab ?r4"
    by (rule validatePlugin_reaches_manifest [OF read_ab(3) sub_ab_fields(1,2,3) valid_com_a_b])
  also have "\<dots> = (Inr (after_manifest_ab ?r4), ?reqs)"
    by (rule checkManifest_ab)
  finally have out: "validatePlugin world_one ''plugins/com.a.b.json'' ''plugins'' =
      (Inr (after_manifest_ab ?r4), ?reqs)" .
  have p: "passed ?r4"
    unfolding before_manifest_fields basename_ab by simp
  have w: "warnings ?r4 = [''Plugin ID already exists - this will update the existing entry'']"
    unfolding before_manifest_fields using checkDuplicate_one by simp
  show ?thesis
    by (intro exI [of _ ?r4] conjI out p w)
qed

text \<open>
  C3. The directory holds one file, the submission that is being validated, and no
  other submission; the duplicate check reads that file, finds the identifier in it and
  warns that an existing entry will be updated.
\<close>

theorem duplicate_check_reads_own_file:
  "readdirSync world_one ''plugins'' = [''com.a.b.json''] \<and>
   basename ''plugins/com.a.b.json'' = ''com.a.b.json'' \<and>
   (\<exists>r reqs. validatePlugin world_one ''plugins/com.a.b.json'' ''plugins'' = (Inr r, reqs) \<and>
      passed r \<and>
      hd (warnings r) = ''Plugin ID already exists - this will update the existing entry'')"
proof -
  from example_one_result obtain r4 where
    out: "validatePlugin world_one ''plugins/com.a.b.json'' ''plugins'' =
          (Inr (after_manifest_ab r4),
           [''https://raw.githubusercontent.com/a/b/main/manifest.json'',
            ''https://raw.githubusercontent.com/a/b/main/main.js''])"
    and r4: "passed r4" "warnings r4 = [''Plugin ID already exists - this will update the existing entry'']"
    by blast
  have p: "passed (after_manifest_ab r4)"
    unfolding after_manifest_ab_fields by (rule r4(1))
  have w: "hd (warnings (after_manifest_ab r4)) =
      ''Plugin ID already exists - this will update the existing entry''"
    unfolding after_manifest_ab_fields r4(2) by simp
  have d: "readdirSync world_one ''plugins'' = [''com.a.b.json'']"
    by (simp add: world_one_def)
  show ?thesis
    by (intro conjI d basename_ab exI [of _ "after_manifest_ab r4"]
          exI [of _ "[''https://raw.githubusercontent.com/a/b/main/manifest.json'',
                      ''https://raw.githubusercontent.com/a/b/main/main.js'']"] out p w)
qed

section \<open>A run of the builder\<close>

lemma processFile_accounts:
  "(plugins (processFile E dir st file) = plugins st \<and>
    length (build_errors (processFile E dir st file)) = Suc (length (build_errors st))) \<or>
   (length (plugins (processFile E dir st file)) = Suc (length (plugins st)) \<and>
    build_errors (processFile E dir st file) = build_errors st)"
  by (auto simp: processFile_def record_error_def split: sum.splits prod.splits)

lemma foldl_processFile_accounts:
  "length (plugins (foldl (processFile E dir) st files)) +
   length (build_errors (foldl (processFile E dir) st files)) =
   length (plugins st) + length (build_errors st) + length files"
proof (induction files arbitrary: st)
  case Nil
  show ?case by simp
next
  case (Cons f fs)
  from processFile_accounts [of E dir st f]
  have "length (plugins (processFile E dir st f)) + length (build_errors (processFile E dir st f)) =
        Suc (length (plugins st) + length (build_errors st))"
    by auto
  with Cons.IH [of "processFile E dir st f"] show ?case by simp
qed

text \<open>The loop ends for every listing, and every file leaves an entry or an error.\<close>

lemma processFiles_accounts:
  "length (plugins (processFiles E dir files)) + length (build_errors (processFiles E dir files)) =
   length files"
  unfolding processFiles_def using foldl_processFile_accounts [of E dir _ files] by simp

lemma read_two:
  "read_json world_two (path_join ''plugins'' ''com.a.b.json'') = Inr sub_ab"
  by (simp add: read_json_def path_join_def world_two_def read_example_def parse_example_def)

lemma fetch_two_ab:
  "fetchManifest world_two (JStr ''https://github.com/a/b'') ''main'' =
     (Inr man_ab, [''https://raw.githubusercontent.com/a/b/main/manifest.json''])"
  by (subst fetchManifest_main [OF parse_ab])
     (simp add: raw_url_def world_two_def fetch_example_def ok_def parse_example_def)

lemma processFiles_two:
  "processFiles world_two ''plugins'' [''com.a.b.json'', ''com.c.d.json''] =
     \<lparr>plugins = [directoryEntry sub_ab man_ab (clock world_two 0),
                 directoryEntry sub_cd man_cd (clock world_two 1)],
      build_errors = [],
      requested = [''https://raw.githubusercontent.com/a/b/main/manifest.json'',
                   ''https://raw.githubusercontent.com/c/d/main/manifest.json'',
                   ''https://raw.githubusercontent.com/c/d/master/manifest.json''],
      clock_reads = 2\<rparr>"
proof -
  have cd: "\<not> nullish sub_cd" "\<not> nullish man_cd" "get sub_cd ''repo'' = JStr ''https://github.com/c/d''"
    by (simp_all add: sub_cd_def man_cd_def)
  note a = processFile_added [OF read_two sub_ab_fields(1) fetch_two_ab [folded sub_ab_fields(4)] man_ab_fields(1)]
  note c = processFile_added [OF read_cd cd(1) fetch_cd [folded cd(3)] cd(2)]
  show ?thesis
    by (simp add: processFiles_def a c)
qed

text \<open>
  C1. Two submissions are listed; both are read and both manifests are fetched, so no
  error is recorded; the manifest of the second has no name, and the sort that follows
  the loop raises a TypeError when its comparator reads \<open>a.name.localeCompare\<close> on that
  entry: \<open>buildDirectory\<close> ends with the exception and writes no document.
\<close>

theorem buildDirectory_aborts:
  "readdirSync world_two ''plugins'' = [''com.a.b.json'', ''com.c.d.json''] \<and>
   build_errors (processFiles world_two ''plugins'' [''com.a.b.json'', ''com.c.d.json'']) = [] \<and>
   buildDirectory world_two ''plugins'' = Inl (cannot_read JUndefined ''localeCompare'')"
proof -
  have d: "readdirSync world_two ''plugins'' = [''com.a.b.json'', ''com.c.d.json'']"
    by (simp add: world_two_def)
  have n: "get (directoryEntry sub_cd man_cd now) ''name'' = JUndefined" for now
    by (simp add: get_entry_required man_cd_def)
  have c: "compareByName E (directoryEntry sub_cd man_cd now) b = Inl (cannot_read JUndefined ''localeCompare'')"
    for E now b
    by (simp add: compareByName_def n)
  have s: "js_sort (compareByName world_two)
             [directoryEntry sub_ab man_ab t0, directoryEntry sub_cd man_cd t1] =
           Inl (cannot_read JUndefined ''localeCompare'')" for t0 t1
    by (simp add: js_sort_def and_then_def c)
  have "buildDirectory world_two ''plugins'' = Inl (cannot_read JUndefined ''localeCompare'')"
    by (simp add: buildDirectory_def d endsWith_def processFiles_two s Let_def)
  then show ?thesis
    by (simp add: d processFiles_two)
qed

section \<open>The warning about dangerous permissions\<close>

lemma show_nat_digit:
  "\<exists>c cs. show_nat n = c # cs \<and> c \<in> set ascii_digits"
proof (induction n rule: show_nat.induct)
  case (1 n)
  show ?case
  proof (cases "n < 10")
    case True
    then have "n \<in> {0, 1, 2, 3, 4, 5, 6, 7, 8, 9}" by auto
    then have "digit_char n \<in> set ascii_digits"
      by (auto simp: digit_char_def ascii_digits_def)
    with True show ?thesis by (subst show_nat.simps) simp
  next
    case False
    with 1 obtain c cs where "show_nat (n div 10) = c # cs" "c \<in> set ascii_digits" by blast
    with False show ?thesis by (subst show_nat.simps) simp
  qed
qed

lemma dangerous_warning_is: "is_dangerous_warning (dangerous_warning s)"
  by (simp add: is_dangerous_warning_def dangerous_warning_def startsWith_def)

lemma other_warnings_are_not:
  "\<not> is_dangerous_warning ''Plugin ID already exists - this will update the existing entry''"
  "\<not> is_dangerous_warning ''Consider adding a `helpUrl` for documentation''"
  "\<not> is_dangerous_warning ''Consider adding a `category` for better discoverability''"
  "\<not> is_dangerous_warning (pattern_warning nm)"
  "\<not> is_dangerous_warning (size_warning n)"
  by (simp_all add: is_dangerous_warning_def startsWith_def pattern_warning_def size_warning_def)

lemma count_warning_is_not: "\<not> is_dangerous_warning (count_warning n)"
proof -
  obtain c cs where s: "show_nat n = c # cs" and c: "c \<in> set ascii_digits"
    using show_nat_digit by blast
  from c have "c \<noteq> CHR ''d''" by (auto simp: ascii_digits_def)
  then show ?thesis
    by (simp add: is_dangerous_warning_def startsWith_def count_warning_def s)
qed

lemma dangerous_warnings_simps [simp]:
  "dangerous_warnings (addCheck nm p d r) = dangerous_warnings r"
  "dangerous_warnings (addWarning w r) =
     dangerous_warnings r @ (if is_dangerous_warning w then [w] else [])"
  "dangerous_warnings (r\<lparr>manifest := m\<rparr>) = dangerous_warnings r"
  "dangerous_warnings (r\<lparr>pluginId := q\<rparr>) = dangerous_warnings r"
  "dangerous_warnings (new_ValidationResult q) = []"
  by (simp_all add: dangerous_warnings_def)


lemma quiet_checkIdsMatch:
  "checkIdsMatch sub m r = Inr r' \<Longrightarrow>
     dangerous_warnings r' = dangerous_warnings r \<and> manifest r' = manifest r"
  by (auto simp: checkIdsMatch_def and_then_def split: if_splits sum.splits)

lemma quiet_checkVersion:
  "checkVersion m r = Inr r' \<Longrightarrow>
     dangerous_warnings r' = dangerous_warnings r \<and> manifest r' = manifest r"
  by (auto simp: checkVersion_def and_then_def split: if_splits sum.splits)

lemma quiet_checkPermissions:
  "checkPermissions m r = Inr r' \<Longrightarrow>
     dangerous_warnings r' = dangerous_warnings r \<and> manifest r' = manifest r"
  by (auto simp: checkPermissions_def and_then_def Let_def split: if_splits sum.splits)

lemma filter_includes_strings: "\<exists>names. filter (js_includes xs) ps = map JStr names"
proof (induction ps)
  case Nil
  show ?case by simp
next
  case (Cons p ps)
  then obtain names where n: "filter (js_includes xs) ps = map JStr names" by blast
  show ?case
  proof (cases "js_includes xs p")
    case False
    with n show ?thesis by auto
  next
    case True
    then obtain s where "p = JStr s" by (cases p) simp_all
    with True n have "filter (js_includes xs) (p # ps) = map JStr (s # names)" by simp
    then show ?thesis by blast
  qed
qed

lemma to_str_elems_strings: "to_str_elems (map JStr names) = Inr names"
  by (induction names) simp_all

lemma dangerousWarning_adds:
  assumes "dangerousWarning (Some ps) r = Inr r'"
    and "filter (js_includes DANGEROUS_PERMISSIONS) ps \<noteq> []"
  shows "\<exists>names. map JStr names = filter (js_includes DANGEROUS_PERMISSIONS) ps \<and>
           dangerous_warnings r' = dangerous_warnings r @ [dangerous_warning (join ''`, `'' names)] \<and>
           manifest r' = manifest r"
proof -
  obtain names where n: "filter (js_includes DANGEROUS_PERMISSIONS) ps = map JStr names"
    using filter_includes_strings by blast
  have "join_js ''`, `'' (map JStr names) = Inr (join ''`, `'' names)"
    by (simp add: join_js_def to_str_elems_strings)
  with assms n have "r' = addWarning (dangerous_warning (join ''`, `'' names)) r"
    by (simp add: dangerousWarning_def or_empty_def and_then_def Let_def)
  then show ?thesis
    using n by (intro exI [of _ names]) (simp add: dangerous_warning_is)
qed

lemma quiet_optionalFieldWarnings:
  "dangerous_warnings (optionalFieldWarnings m r) = dangerous_warnings r"
  "manifest (optionalFieldWarnings m r) = manifest r"
  by (simp_all add: optionalFieldWarnings_def Let_def other_warnings_are_not)

lemma quiet_permissionCountWarning:
  "dangerous_warnings (permissionCountWarning ps r) = dangerous_warnings r"
  "manifest (permissionCountWarning ps r) = manifest r"
  by (cases ps; simp add: permissionCountWarning_def count_warning_is_not)+

lemma warningChecks_adds:
  assumes "warningChecks m r = Inr r'" and "get m ''permissions'' = JArr ps"
    and "filter (js_includes DANGEROUS_PERMISSIONS) ps \<noteq> []"
  shows "\<exists>names. map JStr names = filter (js_includes DANGEROUS_PERMISSIONS) ps \<and>
           dangerous_warnings r' = dangerous_warnings r @ [dangerous_warning (join ''`, `'' names)] \<and>
           manifest r' = manifest r"
proof -
  have "optional_array (get m ''permissions'') = Inr (Some ps)"
    by (simp add: optional_array_def assms(2))
  with assms(1) obtain r1 where r1: "dangerousWarning (Some ps) r = Inr r1"
    and r': "r' = permissionCountWarning (Some ps) (optionalFieldWarnings m r1)"
    by (auto simp: warningChecks_def and_then_def split: sum.splits)
  from dangerousWarning_adds [OF r1 assms(3)] show ?thesis
    unfolding r' quiet_permissionCountWarning quiet_optionalFieldWarnings .
qed

lemma manifestChecks_adds:
  assumes "manifestChecks sub m r = Inr r'" and "get m ''permissions'' = JArr ps"
    and "filter (js_includes DANGEROUS_PERMISSIONS) ps \<noteq> []"
  shows "\<exists>names. map JStr names = filter (js_includes DANGEROUS_PERMISSIONS) ps \<and>
           dangerous_warnings r' = dangerous_warnings r @ [dangerous_warning (join ''`, `'' names)] \<and>
           manifest r' = manifest r"
proof -
  from assms(1) obtain r8 r9 r10 where s: "checkIdsMatch sub m r = Inr r8" "checkVersion m r8 = Inr r9"
    "checkPermissions m r9 = Inr r10" "warningChecks m r10 = Inr r'"
    by (auto simp: manifestChecks_def and_then_def split: sum.splits)
  from quiet_checkIdsMatch [OF s(1)] quiet_checkVersion [OF s(2)] quiet_checkPermissions [OF s(3)]
  have "dangerous_warnings r10 = dangerous_warnings r" "manifest r10 = manifest r" by simp_all
  with warningChecks_adds [OF s(4) assms(2,3)] show ?thesis by simp
qed

lemma quiet_scan_pattern:
  "dangerous_warnings (scan_pattern mainJs r p) = dangerous_warnings r"
  "manifest (scan_pattern mainJs r p) = manifest r"
  by (cases p; simp add: scan_pattern_def other_warnings_are_not)+

lemma quiet_foldl_scan_pattern:
  "dangerous_warnings (foldl (scan_pattern mainJs) r ps) = dangerous_warnings r \<and>
   manifest (foldl (scan_pattern mainJs) r ps) = manifest r"
  by (induction ps arbitrary: r) (simp_all add: quiet_scan_pattern)

lemma quiet_scan:
  "dangerous_warnings (scan mainJs r) = dangerous_warnings r \<and> manifest (scan mainJs r) = manifest r"
  unfolding scan_def by (rule quiet_foldl_scan_pattern)

lemma quiet_securityChecks:
  assumes "securityChecks E sub m r = (r', reqs)"
  shows "dangerous_warnings r' = dangerous_warnings r \<and> manifest r' = manifest r"
  using assms
  by (auto simp: securityChecks_def quiet_scan other_warnings_are_not
        split: prod.splits sum.splits if_splits)

lemma checkManifest_permissions_checked:
  assumes "checkManifest E sub r = (Inr r', reqs)"
    and "''Valid permissions'' \<in> set (check_names r')"
    and "''Valid permissions'' \<notin> set (check_names r)"
  shows "\<exists>m r0 r9 reqs2. manifestChecks sub m r0 = Inr r9 \<and> securityChecks E sub m r9 = (r', reqs2) \<and>
           manifest r0 = m \<and> dangerous_warnings r0 = dangerous_warnings r"
proof -
  obtain x reqs0 where f0: "fetchManifestJson E sub = (x, reqs0)"
    by (cases "fetchManifestJson E sub")
  show ?thesis
  proof (cases x)
    case (Inl e)
    with f0 have "fetchManifestJson E sub = (Inl e, reqs0)" by simp
    from checkManifest_unreachable [OF this, of r] assms(1)
    have "r' = addCheck ''Repo accessible'' False (JStr (message e)) r" by simp
    with assms(2,3) show ?thesis by simp
  next
    case (Inr m)
    with f0 have f: "fetchManifestJson E sub = (Inr m, reqs0)" by simp
    let ?r6 = "(addCheck ''Manifest found'' True JNull
               (addCheck ''Repo accessible'' True JNull r))\<lparr>manifest := m\<rparr>"
    show ?thesis
    proof (cases "missing_fields REQUIRED_MANIFEST_FIELDS m = []")
      case False
      with assms(1) f have "r' = addCheck ''Manifest valid'' False
          (JStr (''missing: '' @ join '', '' (missing_fields REQUIRED_MANIFEST_FIELDS m))) ?r6"
        by (simp add: checkManifest_def Let_def split: if_splits)
      with assms(2,3) show ?thesis by simp
    next
      case True
      with assms(1) f obtain r9 reqs' where
        "manifestChecks sub m (addCheck ''Manifest valid'' True JNull ?r6) = Inr r9"
        and "securityChecks E sub m r9 = (r', reqs')"
        by (auto simp: checkManifest_def Let_def split: if_splits sum.splits prod.splits)
      moreover have "manifest (addCheck ''Manifest valid'' True JNull ?r6) = m"
        and "dangerous_warnings (addCheck ''Manifest valid'' True JNull ?r6) = dangerous_warnings r"
        by simp_all
      ultimately show ?thesis by blast
    qed
  qed
qed

lemma validatePlugin_permissions_checked:
  assumes "validatePlugin E path dir = (Inr r, reqs)"
    and "''Valid permissions'' \<in> set (check_names r)"
  shows "\<exists>sub r4. checkManifest E sub r4 = (Inr r, reqs) \<and> dangerous_warnings r4 = [] \<and>
           ''Valid permissions'' \<notin> set (check_names r4)"
proof (cases "read_json E path")
  case (Inl e)
  with assms show ?thesis by (auto simp: validatePlugin_def Let_def)
next
  case (Inr sub)
  let ?r1 = "addCheck ''Valid JSON'' True JNull
               (new_ValidationResult (JStr (remove_first ''.json'' (basename path))))"
  from Inr assms(1) have cs: "checkSubmission E (basename path) dir sub ?r1 = (Inr r, reqs)"
    by (simp add: validatePlugin_def Let_def)
  have nn: "\<not> nullish sub"
    using cs by (auto simp: checkSubmission_def)
  have mf: "missing_fields REQUIRED_SUBMISSION_FIELDS sub = []"
    using cs nn assms(2) by (auto simp: checkSubmission_def split: if_splits)
  let ?r2 = "(addCheck ''Required fields'' True JNull ?r1)\<lparr>pluginId := get sub ''id''\<rparr>"
  from cs nn mf have c3: "(case isValidPluginId (get sub ''id'') of
           Inl e \<Rightarrow> (Inl e, [])
         | Inr False \<Rightarrow>
             (Inr (addCheck ''Plugin ID format'' False
                    (JStr ''must be reverse domain notation (e.g., com.author.name)'') ?r2), [])
         | Inr True \<Rightarrow>
             (case to_str (get sub ''id'') of
                Inl e \<Rightarrow> (Inl e, [])
              | Inr sid \<Rightarrow>
                  checkManifest E sub
                    (duplicateWarning E (get sub ''id'') dir
                      (checkFilename (basename path) sid (addCheck ''Plugin ID format'' True JNull ?r2))))) =
        (Inr r, reqs)"
    by (simp add: checkSubmission_def Let_def)
  then have v: "isValidPluginId (get sub ''id'') = Inr True"
    using assms(2) by (auto split: sum.splits bool.splits)
  with c3 obtain sid where "to_str (get sub ''id'') = Inr sid"
    and cm: "checkManifest E sub
                    (duplicateWarning E (get sub ''id'') dir
                      (checkFilename (basename path) sid (addCheck ''Plugin ID format'' True JNull ?r2))) =
             (Inr r, reqs)"
    by (auto split: sum.splits)
  let ?r4 = "duplicateWarning E (get sub ''id'') dir
                      (checkFilename (basename path) sid (addCheck ''Plugin ID format'' True JNull ?r2))"
  have "dangerous_warnings ?r4 = []" and "''Valid permissions'' \<notin> set (check_names ?r4)"
    by (simp_all add: duplicateWarning_def checkFilename_def Let_def other_warnings_are_not)
  with cm show ?thesis by blast
qed

text \<open>
  C8. A validation that returns with the check \<open>Valid permissions\<close> recorded has reached
  the warning checks. If the permissions of its manifest then hold at least one
  permission of the dangerous set, exactly one warning of the result is about dangerous
  permissions, and it is the combined warning that lists all of them, in the order and
  as often as the manifest declares them.
\<close>

theorem dangerous_permissions_one_warning:
  assumes "validatePlugin E path dir = (Inr r, reqs)"
    and "''Valid permissions'' \<in> set (check_names r)"
    and "get (manifest r) ''permissions'' = JArr ps"
    and "filter (js_includes DANGEROUS_PERMISSIONS) ps \<noteq> []"
  shows "\<exists>names. map JStr names = filter (js_includes DANGEROUS_PERMISSIONS) ps \<and>
           dangerous_warnings r = [dangerous_warning (join ''`, `'' names)]"
proof -
  from validatePlugin_permissions_checked [OF assms(1,2)] obtain sub r4 where
    cm: "checkManifest E sub r4 = (Inr r, reqs)" and r4: "dangerous_warnings r4 = []"
      "''Valid permissions'' \<notin> set (check_names r4)"
    by blast
  from checkManifest_permissions_checked [OF cm assms(2) r4(2)] obtain m r0 r9 reqs2 where
    mc: "manifestChecks sub m r0 = Inr r9" and sc: "securityChecks E sub m r9 = (r, reqs2)"
    and r0: "manifest r0 = m" "dangerous_warnings r0 = dangerous_warnings r4"
    by blast
  have q: "dangerous_warnings r = dangerous_warnings r9" "manifest r = manifest r9"
    using quiet_securityChecks [OF sc] by simp_all
  have "manifest r9 = m"
  proof -
    from mc obtain r8 r9' r10 where s: "checkIdsMatch sub m r0 = Inr r8" "checkVersion m r8 = Inr r9'"
      "checkPermissions m r9' = Inr r10" "warningChecks m r10 = Inr r9"
      by (auto simp: manifestChecks_def and_then_def split: sum.splits)
    from s(4) obtain ps' r1 where "r9 = permissionCountWarning ps' (optionalFieldWarnings m r1)"
      and d: "dangerousWarning ps' r10 = Inr r1"
      by (auto simp: warningChecks_def and_then_def split: sum.splits)
    moreover from d have "manifest r1 = manifest r10"
      by (auto simp: dangerousWarning_def and_then_def Let_def split: if_splits sum.splits)
    ultimately show ?thesis
      using quiet_checkIdsMatch [OF s(1)] quiet_checkVersion [OF s(2)] quiet_checkPermissions [OF s(3)] r0(1)
      by (simp add: quiet_permissionCountWarning quiet_optionalFieldWarnings)
  qed
  with q assms(3) have p: "get m ''permissions'' = JArr ps" by simp
  from manifestChecks_adds [OF mc p assms(4)] obtain names where
    "map JStr names = filter (js_includes DANGEROUS_PERMISSIONS) ps"
    "dangerous_warnings r9 = dangerous_warnings r0 @ [dangerous_warning (join ''`, `'' names)]"
    by blast
  then show ?thesis
    unfolding q r0 r4 by (intro exI [of _ names]) simp
qed


theorem dangerous_permissions_one_warning_witness:
  "\<exists>r reqs. validatePlugin world_one ''plugins/com.a.b.json'' ''plugins'' = (Inr r, reqs) \<and>
      passed r \<and>
      get (manifest r) ''permissions'' = JArr [JStr ''read:goals'', JStr ''network''] \<and>
      dangerous_warnings r =
        [''Plugin requests dangerous permissions: `network` - please document why these are needed'']"
proof -
  from example_one_result obtain r4 where
    out: "validatePlugin world_one ''plugins/com.a.b.json'' ''plugins'' =
          (Inr (after_manifest_ab r4),
           [''https://raw.githubusercontent.com/a/b/main/manifest.json'',
            ''https://raw.githubusercontent.com/a/b/main/main.js''])"
    and r4: "passed r4"
    by blast
  let ?r = "after_manifest_ab r4"
  have c: "''Valid permissions'' \<in> set (check_names ?r)"
    unfolding after_manifest_ab_fields by simp
  have m: "get (manifest ?r) ''permissions'' = JArr [JStr ''read:goals'', JStr ''network'']"
    unfolding after_manifest_ab_fields by (rule man_ab_fields)
  have f: "filter (js_includes DANGEROUS_PERMISSIONS) [JStr ''read:goals'', JStr ''network''] =
           [JStr ''network'']"
    by (simp add: DANGEROUS_PERMISSIONS_def)
  then have ne: "filter (js_includes DANGEROUS_PERMISSIONS) [JStr ''read:goals'', JStr ''network''] \<noteq> []"
    by simp
  note T = dangerous_permissions_one_warning [OF out c m ne, unfolded f]
  from T obtain names where n: "map JStr names = [JStr ''network'']"
    and d: "dangerous_warnings ?r = [dangerous_warning (join ''`, `'' names)]"
    by (elim exE conjE)
  from n have "names = [''network'']" by auto
  with d have "dangerous_warnings ?r =
        [''Plugin requests dangerous permissions: `network` - please document why these are needed'']"
    by (simp add: dangerous_warning_def)
  moreover have "passed ?r" unfolding after_manifest_ab_fields by (rule r4)
  ultimately show ?thesis using out m by blast
qed

end
